theory Spec2Isabelle
  imports Main "HOL-Library.Multiset" "HOL-Library.Product_Lexorder"
begin

section \<open>Common vocabulary\<close>

text \<open>
  A \<^verbatim>\<open>torch.device\<close> is a device type together with an optional index:
  \<^verbatim>\<open>torch.device("cpu")\<close> is \<open>Device CPU None\<close> and \<^verbatim>\<open>torch.device("cuda:0")\<close> is
  \<open>Device CUDA (Some 0)\<close>. The design is a fixed two-tier one, so the device type has
  the two values the source compares against.
\<close>

datatype devtype = CUDA | CPU

datatype torch_device = Device (dev_type: devtype) (dev_index: "int option")

text \<open>
  Exceptions of the source are values; a call yields its outcome and the state it left.
  Logging, timers and the profiler are left out: they change nothing the operations
  read.
\<close>

datatype error =
  RuntimeError | KeyError | ZeroDivisionError | AttributeError | AssertionError | TypeError
  | IndexError

datatype 'a result = Raise error | Return 'a

text \<open>
  Status of one tensor inside a chunk (\<^verbatim>\<open>PSTensorStatus\<close>): the source tests for
  \<^verbatim>\<open>FREE\<close> and \<^verbatim>\<open>COMPUTE\<close> and treats everything else alike.
\<close>

datatype PSTensorStatus = TENSOR_COMPUTE | TENSOR_HOLD | TENSOR_FREE

section \<open>The chunk directory: \<^verbatim>\<open>patrickstar/core/chunk_list.py\<close>\<close>

subsection \<open>Collaborators of \<^verbatim>\<open>ChunkList\<close>\<close>

datatype ChunkState = RELEASED | FREE | HOLD | COMPUTE

datatype ChunkType = PARAM_FP16 | PARAM_FP32 | MOMENTUM | VARIANCE | UNDEF

text \<open>
  The chunk objects held by \<^verbatim>\<open>ChunkList\<close> are built with
  \<^verbatim>\<open>Chunk(capacity, data_type, chunk_id, local_rank, is_dummy)\<close>; this class
  (\<^verbatim>\<open>patrickstar/core/chunk_data.py\<close>) is not among the source files. The record keeps
  the constructor's arguments (the data type by its element size,
  \<^verbatim>\<open>getsizeof(data_type)\<close>) and what the directory observes through the getters:
  where the payload lives (\<open>None\<close> when it is not materialized), the statuses of the
  tensors inside, the pin flag, and the access moments that
  \<^verbatim>\<open>display_access_info\<close> reads.
\<close>

record CoreChunk =
  cc_capacity :: int
  cc_elem_size :: int
  cc_chunk_id :: int
  cc_local_rank :: int
  cc_is_dummy :: bool
  cc_payload_device :: "torch_device option"
  cc_tensor_states :: "PSTensorStatus list"
  cc_pin :: bool
  gpu_access_moments :: "int list"
  cpu_access_moments :: "int list"

definition Chunk_init :: "int \<Rightarrow> int \<Rightarrow> int \<Rightarrow> int \<Rightarrow> bool \<Rightarrow> CoreChunk" where
  \<comment> \<open>Modelled from the spec: the constructor of the core \<^verbatim>\<open>Chunk\<close> class is missing.
      Spec 4.2: a Block is registered lazily, storage not yet materialized.\<close>
  "Chunk_init capacity elem_size chunk_id local_rank is_dummy =
     \<lparr>cc_capacity = capacity, cc_elem_size = elem_size, cc_chunk_id = chunk_id,
      cc_local_rank = local_rank, cc_is_dummy = is_dummy, cc_payload_device = None,
      cc_tensor_states = [], cc_pin = False,
      gpu_access_moments = [], cpu_access_moments = []\<rparr>"

definition get_device :: "CoreChunk \<Rightarrow> torch_device option" where
  "get_device c = cc_payload_device c"

definition get_state :: "CoreChunk \<Rightarrow> ChunkState" where
  \<comment> \<open>Modelled from the spec: \<^verbatim>\<open>Chunk.get_state\<close> is missing. Spec 3: RELEASED is storage
      not yet materialized; otherwise any COMPUTE item forces COMPUTE, otherwise any
      non-released item forces HOLD, otherwise FREE.\<close>
  "get_state c =
     (if cc_payload_device c = None then RELEASED
      else if TENSOR_COMPUTE \<in> set (cc_tensor_states c) then COMPUTE
      else if list_ex (\<lambda>t. t \<noteq> TENSOR_FREE) (cc_tensor_states c) then HOLD
      else FREE)"

definition is_pin :: "CoreChunk \<Rightarrow> bool" where
  "is_pin c = cc_pin c"

definition get_chunk_space :: "CoreChunk \<Rightarrow> int" where
  \<comment> \<open>Modelled from the spec: the bytes a Block requires, capacity * elementSize.\<close>
  "get_chunk_space c = cc_elem_size c * cc_capacity c"

definition get_payload_space :: "CoreChunk \<Rightarrow> int" where
  \<comment> \<open>Modelled from the spec: \<^verbatim>\<open>memoryUsed\<close> sums capacity * elementSize over the
      Blocks resident on a tier.\<close>
  "get_payload_space c = cc_elem_size c * cc_capacity c"

definition append_moment :: "int \<Rightarrow> torch_device \<Rightarrow> CoreChunk \<Rightarrow> CoreChunk" where
  \<comment> \<open>Modelled from the spec: \<^verbatim>\<open>Chunk.append_moment\<close> is missing. Spec 6: the next-access
      predictor is populated during the warm-up phase; the moment is recorded in the
      list of the device's tier.\<close>
  "append_moment mom dev c =
     (if dev_type dev = CUDA then c\<lparr>gpu_access_moments := gpu_access_moments c @ [mom]\<rparr>
      else c\<lparr>cpu_access_moments := cpu_access_moments c @ [mom]\<rparr>)"

text \<open>
  \<^verbatim>\<open>PatrickStarManager\<close> is the capacity tracker, a process-wide singleton that is not
  among the source files.
\<close>

record Manager =
  available_mem :: "devtype \<Rightarrow> int"
  used_mem :: "devtype \<Rightarrow> int"
  warmup :: bool
  cur_mom :: int

definition available_chunk_mem :: "Manager \<Rightarrow> devtype \<Rightarrow> int" where
  \<comment> \<open>Modelled from the spec: the tracker's \<^verbatim>\<open>available(tierType)\<close> query.\<close>
  "available_chunk_mem m t = available_mem m t"

definition free_chunk_mem :: "Manager \<Rightarrow> devtype \<Rightarrow> int" where
  \<comment> \<open>Modelled from the spec: the tracker's \<^verbatim>\<open>free(tierType)\<close> query, the available
      budget less the bytes in use.\<close>
  "free_chunk_mem m t = available_mem m t - used_mem m t"

definition mgr_add :: "devtype \<Rightarrow> int \<Rightarrow> Manager \<Rightarrow> Manager" where
  \<comment> \<open>Modelled from the spec: \<^verbatim>\<open>reserve\<close>, increment the tier's used bytes.\<close>
  "mgr_add t b m = m\<lparr>used_mem := (used_mem m)(t := used_mem m t + b)\<rparr>"

definition mgr_delete :: "devtype \<Rightarrow> int \<Rightarrow> Manager \<Rightarrow> Manager" where
  \<comment> \<open>Modelled from the spec: \<^verbatim>\<open>release\<close>, decrement the tier's used bytes.\<close>
  "mgr_delete t b m = m\<lparr>used_mem := (used_mem m)(t := used_mem m t - b)\<rparr>"

definition is_warmup_training :: "Manager \<Rightarrow> bool" where
  "is_warmup_training m = warmup m"

definition get_cur_mom :: "Manager \<Rightarrow> int" where
  "get_cur_mom m = cur_mom m"

subsection \<open>\<^verbatim>\<open>ChunkList\<close> and the class-level id counter\<close>

text \<open>
  \<^verbatim>\<open>id_to_chunk_map\<close> is a Python dict: an association list in insertion order whose
  keys are distinct. A \<open>state\<close> is one \<^verbatim>\<open>ChunkList\<close> instance together with the manager
  singleton its methods consult.
\<close>

record ChunkList =
  id_to_chunk_map :: "(int \<times> CoreChunk) list"
  chunk_type_to_id_list_map :: "ChunkType \<Rightarrow> int list"
  local_rank :: int

record state = ChunkList +
  mgr :: Manager

definition ChunkList_init :: "int \<Rightarrow> ChunkList" where
  "ChunkList_init lr =
     \<lparr>id_to_chunk_map = [], chunk_type_to_id_list_map = (\<lambda>_. []), local_rank = lr\<rparr>"

text \<open>
  \<^verbatim>\<open>generated_chunk_id = -1\<close> is an attribute of the class object, and
  \<^verbatim>\<open>generate_chunk_id\<close> updates it through the class name; a process is the class
  attribute together with the instances constructed so far.
\<close>

record process =
  generated_chunk_id :: int
  instances :: "ChunkList list"

definition initial_process :: process where
  "initial_process = \<lparr>generated_chunk_id = - 1, instances = []\<rparr>"

definition construct :: "process \<Rightarrow> int \<Rightarrow> process" where
  "construct p lr = p\<lparr>instances := instances p @ [ChunkList_init lr]\<rparr>"

definition generate_chunk_id :: "process \<Rightarrow> nat \<Rightarrow> int \<times> process" where
  \<comment> \<open>\<open>self\<close> is the position of the instance; the method never reads it.\<close>
  "generate_chunk_id p self =
     (let p' = p\<lparr>generated_chunk_id := generated_chunk_id p + 1\<rparr>
      in (generated_chunk_id p', p'))"

datatype call = Construct int | Generate nat

fun run_calls :: "process \<Rightarrow> call list \<Rightarrow> int list \<times> process" where
  "run_calls p [] = ([], p)"
| "run_calls p (Construct lr # cs) = run_calls (construct p lr) cs"
| "run_calls p (Generate self # cs) =
     (case generate_chunk_id p self of
        (i, p') \<Rightarrow> (case run_calls p' cs of (is, p'') \<Rightarrow> (i # is, p'')))"

fun is_Generate :: "call \<Rightarrow> bool" where
  "is_Generate (Generate _) = True"
| "is_Generate (Construct _) = False"

subsection \<open>Operations of the directory\<close>

definition allocate_payload ::
  "torch_device \<Rightarrow> CoreChunk \<Rightarrow> Manager \<Rightarrow> CoreChunk \<times> Manager" where
  \<comment> \<open>Modelled from the spec: \<^verbatim>\<open>Chunk.allocate_payload\<close> is missing. Spec 4.2: materialize
      storage on the target device (first-touch allocation); the bytes are reserved on
      the device's tier.\<close>
  "allocate_payload dev c m =
     (c\<lparr>cc_payload_device := Some dev\<rparr>, mgr_add (dev_type dev) (get_chunk_space c) m)"

definition core_move ::
  "torch_device \<Rightarrow> CoreChunk \<Rightarrow> Manager \<Rightarrow> CoreChunk \<times> Manager" where
  \<comment> \<open>Modelled from the spec: the core \<^verbatim>\<open>Chunk.move(device)\<close> is missing. Spec 4.1: no-op
      if already on the target tier; otherwise increment destination used, decrement
      source used, relocate the storage and update the current tier. A chunk without
      storage has nothing to relocate.\<close>
  "core_move dev c m =
     (case cc_payload_device c of
        None \<Rightarrow> (c, m)
      | Some src \<Rightarrow>
          if dev_type src = dev_type dev then (c, m)
          else (c\<lparr>cc_payload_device := Some dev\<rparr>,
                mgr_delete (dev_type src) (get_payload_space c)
                  (mgr_add (dev_type dev) (get_payload_space c) m)))"

definition set_chunk ::
  "int \<Rightarrow> CoreChunk \<Rightarrow> (int \<times> CoreChunk) list \<Rightarrow> (int \<times> CoreChunk) list" where
  \<comment> \<open>The chunk object stored under a key is mutated in place.\<close>
  "set_chunk i c m = map (\<lambda>(k, c'). if k = i then (k, c) else (k, c')) m"

definition with_chunk ::
  "int \<Rightarrow> (CoreChunk \<Rightarrow> Manager \<Rightarrow> CoreChunk \<times> Manager) \<Rightarrow> state \<Rightarrow> state" where
  "with_chunk i f s =
     (case map_of (id_to_chunk_map s) i of
        None \<Rightarrow> s
      | Some c \<Rightarrow>
          (case f c (mgr s) of
             (c', m') \<Rightarrow> s\<lparr>id_to_chunk_map := set_chunk i c' (id_to_chunk_map s), mgr := m'\<rparr>))"

text \<open>
  \<^verbatim>\<open>queue.PriorityQueue\<close> holds tuples \<^verbatim>\<open>(-next_mom, chunk_id)\<close>; \<^verbatim>\<open>get\<close> removes and
  returns the least entry in Python's tuple order, which is the lexicographic order of
  pairs. The source calls \<^verbatim>\<open>get\<close> only on a queue that is not empty.
\<close>

type_synonym pq = "(int \<times> int) list"

definition pq_put :: "int \<times> int \<Rightarrow> pq \<Rightarrow> pq" where
  "pq_put x q = q @ [x]"

definition pq_empty :: "pq \<Rightarrow> bool" where
  "pq_empty q = (q = [])"

definition pq_get :: "pq \<Rightarrow> (int \<times> int) \<times> pq" where
  "pq_get q = (min_list q, remove1 (min_list q) q)"

text \<open>
  \<^verbatim>\<open>Chunk.next_accessed_mom\<close> is missing; the selection takes it as a parameter
  \<open>nam\<close>, the predicted next access moment of a chunk on a device.
\<close>

type_synonym next_mom = "CoreChunk \<Rightarrow> torch_device \<Rightarrow> int"

definition movable :: "torch_device \<Rightarrow> CoreChunk \<Rightarrow> bool" where
  "movable target_device chunk =
     (case get_device chunk of
        None \<Rightarrow> False
      | Some d \<Rightarrow>
          dev_type d = dev_type target_device
          \<and> get_state chunk \<noteq> COMPUTE
          \<and> \<not> is_pin chunk)"

fun fill_queue :: "next_mom \<Rightarrow> torch_device \<Rightarrow> (int \<times> CoreChunk) list \<Rightarrow> pq \<Rightarrow> pq" where
  "fill_queue nam target_device [] q = q"
| "fill_queue nam target_device ((chunk_id, chunk) # rest) q =
     fill_queue nam target_device rest
       (if movable target_device chunk
        then pq_put (- nam chunk target_device, chunk_id) q
        else q)"

lemma min_list_mem: "q \<noteq> [] \<Longrightarrow> min_list q \<in> set (q :: 'a::linorder list)"
  by (simp add: min_list_Min)

function drain ::
  "(int \<times> CoreChunk) list \<Rightarrow> int \<Rightarrow> pq \<Rightarrow> int \<Rightarrow> int list \<Rightarrow> (int \<times> int list) result" where
  "drain m still_need_bytes q moved_bytes moved_list =
     (if pq_empty q then Return (moved_bytes, moved_list)
      else
        (case pq_get q of
           ((next_mom, chunk_id), q') \<Rightarrow>
             (case map_of m chunk_id of
                None \<Rightarrow> Raise KeyError
              | Some chunk \<Rightarrow>
                  (let moved_bytes' = moved_bytes + get_payload_space chunk;
                       moved_list' = moved_list @ [chunk_id]
                   in if moved_bytes' \<ge> still_need_bytes
                      then Return (moved_bytes', moved_list')
                      else drain m still_need_bytes q' moved_bytes' moved_list'))))"
  by pat_completeness auto
termination
  by (relation "measure (\<lambda>(m, n, q, b, l). length q)")
     (auto simp: pq_get_def pq_empty_def length_remove1 min_list_mem
           intro!: diff_less length_pos_if_in_set)

declare drain.simps [simp del]

definition chunk_to_move_out_for_room_making ::
  "next_mom \<Rightarrow> state \<Rightarrow> int \<Rightarrow> torch_device \<Rightarrow> int list result" where
  "chunk_to_move_out_for_room_making nam s size_in_bytes target_device =
     (let still_need_bytes = size_in_bytes;
          q = fill_queue nam target_device (id_to_chunk_map s) []
      in case drain (id_to_chunk_map s) still_need_bytes q 0 [] of
           Raise e \<Rightarrow> Raise e
         | Return (moved_bytes, moved_list) \<Rightarrow>
             if moved_bytes < still_need_bytes then Raise RuntimeError
             else Return moved_list)"

definition chunk_move :: "state \<Rightarrow> int \<Rightarrow> torch_device \<Rightarrow> unit result \<times> state" where
  "chunk_move s chunk_id dev =
     (case map_of (id_to_chunk_map s) chunk_id of
        None \<Rightarrow> (Raise KeyError, s)
      | Some chunk \<Rightarrow>
          if free_chunk_mem (mgr s) (dev_type dev) < get_payload_space chunk
          then (Raise RuntimeError, s)
          else if get_device chunk \<noteq> Some dev
          then (Return (), with_chunk chunk_id (core_move dev) s)
          else (Return (), s))"

fun move_all :: "state \<Rightarrow> int list \<Rightarrow> torch_device \<Rightarrow> unit result \<times> state" where
  "move_all s [] dev = (Return (), s)"
| "move_all s (idx # rest) dev =
     (case chunk_move s idx dev of
        (Raise e, s') \<Rightarrow> (Raise e, s')
      | (Return _, s') \<Rightarrow> move_all s' rest dev)"

definition other_device :: "state \<Rightarrow> torch_device \<Rightarrow> torch_device result" where
  \<comment> \<open>\<^verbatim>\<open>torch.device("cpu")\<close>, or \<^verbatim>\<open>torch.device(f"cuda:{self.local_rank}")\<close>, which
      raises for a negative index.\<close>
  "other_device s target_device =
     (if dev_type target_device = CUDA then Return (Device CPU None)
      else if local_rank s < 0 then Raise RuntimeError
      else Return (Device CUDA (Some (local_rank s))))"

definition prepare_device ::
  "next_mom \<Rightarrow> state \<Rightarrow> torch_device \<Rightarrow> int \<Rightarrow> unit result \<times> state" where
  "prepare_device nam s target_device need_bytes =
     (let ava_chunk_mem_size = available_chunk_mem (mgr s) (dev_type target_device);
          free_chunk_mem_size = free_chunk_mem (mgr s) (dev_type target_device)
      in if ava_chunk_mem_size < need_bytes then (Raise RuntimeError, s)
         else
           (let extra_need_bytes = need_bytes - free_chunk_mem_size
            in if extra_need_bytes \<le> 0 then (Return (), s)
               else
                 (case chunk_to_move_out_for_room_making nam s extra_need_bytes target_device of
                    Raise e \<Rightarrow> (Raise e, s)
                  | Return moved_list \<Rightarrow>
                      (case other_device s target_device of
                         Raise e \<Rightarrow> (Raise e, s)
                       | Return new_device \<Rightarrow> move_all s moved_list new_device))))"

definition access_chunk ::
  "next_mom \<Rightarrow> state \<Rightarrow> int \<Rightarrow> torch_device \<Rightarrow> unit result \<times> state" where
  "access_chunk nam s chunk_id compute_device =
     (case map_of (id_to_chunk_map s) chunk_id of
        None \<Rightarrow> (Raise KeyError, s)
      | Some chunk0 \<Rightarrow>
          (let chunk =
                 (if is_warmup_training (mgr s)
                  then append_moment (get_cur_mom (mgr s)) compute_device chunk0
                  else chunk0);
               s1 =
                 (if is_warmup_training (mgr s)
                  then s\<lparr>id_to_chunk_map := set_chunk chunk_id chunk (id_to_chunk_map s)\<rparr>
                  else s);
               chunk_state = get_state chunk;
               payload_space = get_chunk_space chunk
           in if chunk_state = RELEASED then
                (case prepare_device nam s1 compute_device payload_space of
                   (Raise e, s2) \<Rightarrow> (Raise e, s2)
                 | (Return _, s2) \<Rightarrow>
                     (Return (), with_chunk chunk_id (allocate_payload compute_device) s2))
              else
                (case get_device chunk of
                   None \<Rightarrow> (Raise AttributeError, s1)
                 | Some d \<Rightarrow>
                     if dev_type d \<noteq> dev_type compute_device then
                       (case prepare_device nam s1 compute_device payload_space of
                          (Raise e, s2) \<Rightarrow> (Raise e, s2)
                        | (Return _, s2) \<Rightarrow>
                            (let s3 = with_chunk chunk_id (core_move compute_device) s2
                             in case Option.bind (map_of (id_to_chunk_map s3) chunk_id) get_device of
                                  None \<Rightarrow> (Raise AttributeError, s3)
                                | Some d' \<Rightarrow>
                                    if dev_type d' = dev_type compute_device
                                    then (Return (), s3)
                                    else (Raise AssertionError, s3)))
                     else (Return (), s1))))"

record CommInfo =
  comm_chunk_type :: ChunkType
  group_id :: int
  offset :: int

definition new_chunk ::
  "state \<Rightarrow> int \<Rightarrow> int \<Rightarrow> int \<Rightarrow> bool \<Rightarrow> ChunkType \<Rightarrow> int \<Rightarrow> CommInfo result \<times> state" where
  \<comment> \<open>\<open>elem_size\<close> stands for \<^verbatim>\<open>data_type\<close>, \<open>world_size\<close> for \<^verbatim>\<open>get_world_size()\<close>.\<close>
  "new_chunk s chunk_id chunk_size elem_size is_dummy chunk_type world_size =
     (if chunk_id \<in> fst ` set (id_to_chunk_map s) then (Raise RuntimeError, s)
      else
        (let s1 = s\<lparr>id_to_chunk_map := id_to_chunk_map s @
                       [(chunk_id, Chunk_init chunk_size elem_size chunk_id (local_rank s) is_dummy)],
                     chunk_type_to_id_list_map :=
                       (chunk_type_to_id_list_map s)
                         (chunk_type := chunk_type_to_id_list_map s chunk_type @ [chunk_id])\<rparr>;
             num_type_chunk = int (length (chunk_type_to_id_list_map s1 chunk_type))
         in if world_size = 0 then (Raise ZeroDivisionError, s1)
            else (Return \<lparr>comm_chunk_type = chunk_type,
                           group_id = (num_type_chunk - 1) div world_size,
                           offset = (num_type_chunk - 1) mod world_size\<rparr>, s1)))"

subsection \<open>Vocabulary for stating the eviction order\<close>

text \<open>
  The candidates of a selection, the payload bytes and the predicted moment of the chunk
  stored under an id, the candidates' ids in the order the claim describes, and the
  bytes freed by the first \<open>n\<close> of them.
\<close>

definition candidates :: "state \<Rightarrow> torch_device \<Rightarrow> (int \<times> CoreChunk) list" where
  "candidates s dev = filter (\<lambda>(i, c). movable dev c) (id_to_chunk_map s)"

definition payload_of :: "(int \<times> CoreChunk) list \<Rightarrow> int \<Rightarrow> int" where
  "payload_of m i = (case map_of m i of None \<Rightarrow> 0 | Some c \<Rightarrow> get_payload_space c)"

definition mom_of :: "next_mom \<Rightarrow> state \<Rightarrow> torch_device \<Rightarrow> int \<Rightarrow> int" where
  "mom_of nam s dev i =
     (case map_of (id_to_chunk_map s) i of None \<Rightarrow> 0 | Some c \<Rightarrow> nam c dev)"

definition eviction_order :: "next_mom \<Rightarrow> state \<Rightarrow> torch_device \<Rightarrow> int list" where
  "eviction_order nam s dev =
     map snd (sort (map (\<lambda>(i, c). (- nam c dev, i)) (candidates s dev)))"

definition evicted_bytes :: "next_mom \<Rightarrow> state \<Rightarrow> torch_device \<Rightarrow> nat \<Rightarrow> int" where
  "evicted_bytes nam s dev n =
     sum_list (map (payload_of (id_to_chunk_map s)) (take n (eviction_order nam s dev)))"

definition device_of :: "state \<Rightarrow> int \<Rightarrow> torch_device option" where
  "device_of s i = Option.bind (map_of (id_to_chunk_map s) i) get_device"

subsection \<open>A concrete directory\<close>

text \<open>
  Seven chunks of two-byte elements: five on \<^verbatim>\<open>cuda:0\<close> (one in COMPUTE state, one
  pinned), one on the CPU, one not yet materialized. The next access moment of a chunk
  is read off its first recorded GPU moment.
\<close>

definition demo_chunk ::
  "int \<Rightarrow> int \<Rightarrow> torch_device option \<Rightarrow> PSTensorStatus list \<Rightarrow> bool \<Rightarrow> int list \<Rightarrow> CoreChunk" where
  "demo_chunk i cap d ts p ms =
     \<lparr>cc_capacity = cap, cc_elem_size = 2, cc_chunk_id = i, cc_local_rank = 0,
      cc_is_dummy = False, cc_payload_device = d, cc_tensor_states = ts, cc_pin = p,
      gpu_access_moments = ms, cpu_access_moments = []\<rparr>"

definition demo_next_mom :: next_mom where
  "demo_next_mom c dev = (case gpu_access_moments c of [] \<Rightarrow> 0 | x # _ \<Rightarrow> x)"

definition demo_manager :: Manager where
  "demo_manager =
     \<lparr>available_mem = (\<lambda>t. if t = CUDA then 200 else 1000),
      used_mem = (\<lambda>t. if t = CUDA then 150 else 60),
      warmup = False, cur_mom = 3\<rparr>"

definition demo_state :: state where
  "demo_state =
     \<lparr>id_to_chunk_map =
        [(1, demo_chunk 1 15 (Some (Device CUDA (Some 0))) [TENSOR_HOLD] False [5]),
         (2, demo_chunk 2 10 (Some (Device CUDA (Some 0))) [TENSOR_FREE] False [9]),
         (3, demo_chunk 3 20 (Some (Device CUDA (Some 0))) [TENSOR_HOLD] False [5]),
         (4, demo_chunk 4 5 (Some (Device CUDA (Some 0))) [TENSOR_COMPUTE] False [9]),
         (5, demo_chunk 5 30 (Some (Device CPU None)) [TENSOR_HOLD] False [7]),
         (6, demo_chunk 6 10 None [] False []),
         (7, demo_chunk 7 25 (Some (Device CUDA (Some 0))) [TENSOR_HOLD] True [9])],
      chunk_type_to_id_list_map = (\<lambda>t. if t = PARAM_FP16 then [1, 2, 3, 4, 5, 6, 7] else []),
      local_rank = 0,
      mgr = demo_manager\<rparr>"

section \<open>The chunk: \<^verbatim>\<open>client/chunk_data.py\<close>\<close>

subsection \<open>Parameters, tensors and item descriptors\<close>

datatype AccessType = DATA | GRAD

datatype PSChunkStatus = CHUNK_COMPUTE | CHUNK_HOLD | CHUNK_FREE

text \<open>
  A tensor owns a storage, identified by a number, on a device. \<^verbatim>\<open>narrow\<close> and
  \<^verbatim>\<open>view\<close> give a view: it shares the storage and covers \<open>view_numel\<close> elements from
  \<open>view_offset\<close> on, seen with a shape. Element values are opaque to the chunk, which
  only copies and zeroes them.
\<close>

record Tensor =
  storage :: nat
  tensor_device :: torch_device
  elements :: "int list"

record View =
  view_storage :: nat
  view_offset :: int
  view_numel :: int
  view_shape :: "nat list"

text \<open>
  A \<^verbatim>\<open>torch.nn.Parameter\<close> with the attributes the chunk reads and writes. A tensor
  field is \<open>None\<close> when it is Python's \<^verbatim>\<open>None\<close> or a tensor that is not a view of a
  chunk payload. Parameters are shared mutable objects: an item descriptor, the data
  dict and the grad dict hold references into the store \<open>params\<close>.
\<close>

record Param =
  ps_shape :: "nat list"
  ps_data_id :: int
  ps_grad_id :: int
  data_status :: PSTensorStatus
  grad_status :: PSTensorStatus
  ps_data_tensor :: "View option"
  ps_grad_tensor :: "View option"
  param_data :: "View option"
  param_grad :: "View option"

type_synonym params = "nat \<Rightarrow> Param"

record TensorInfo =
  start :: int
  param :: nat
  access_type :: AccessType

definition shape_numel :: "nat list \<Rightarrow> int" where
  "shape_numel shape = int (prod_list shape)"

definition numel :: "params \<Rightarrow> TensorInfo \<Rightarrow> int" where
  "numel h info = shape_numel (ps_shape (h (param info)))"

definition tensor_id :: "params \<Rightarrow> TensorInfo \<Rightarrow> int" where
  "tensor_id h info =
     (case access_type info of
        DATA \<Rightarrow> ps_data_id (h (param info))
      | GRAD \<Rightarrow> ps_grad_id (h (param info)))"

definition status :: "params \<Rightarrow> TensorInfo \<Rightarrow> PSTensorStatus" where
  "status h info =
     (case access_type info of
        DATA \<Rightarrow> data_status (h (param info))
      | GRAD \<Rightarrow> grad_status (h (param info)))"

text \<open>
  \<^verbatim>\<open>TensorInfoList.tensor_id_to_info_dict\<close> is a dict from tensor id to descriptor:
  storing under a key that is present replaces the value in place, a new key goes to
  the end. \<^verbatim>\<open>generate_in_sorted_order\<close> sorts the values by \<^verbatim>\<open>start\<close> with Python's
  stable sort.
\<close>

type_synonym TensorInfoList = "(int \<times> TensorInfo) list"

definition dict_set :: "int \<Rightarrow> 'v \<Rightarrow> (int \<times> 'v) list \<Rightarrow> (int \<times> 'v) list" where
  "dict_set k v d =
     (if k \<in> fst ` set d then map (\<lambda>(k', v'). if k' = k then (k', v) else (k', v')) d
      else d @ [(k, v)])"

definition TensorInfoList_add :: "params \<Rightarrow> TensorInfo \<Rightarrow> TensorInfoList \<Rightarrow> TensorInfoList" where
  "TensorInfoList_add h item d = dict_set (tensor_id h item) item d"

definition generate_in_sorted_order :: "TensorInfoList \<Rightarrow> TensorInfo list" where
  "generate_in_sorted_order d = sort_key start (map snd d)"

definition get_len :: "TensorInfoList \<Rightarrow> nat" where
  "get_len d = length d"

subsection \<open>\<^verbatim>\<open>Chunk\<close>\<close>

text \<open>
  \<open>data_type_size\<close> is \<^verbatim>\<open>getsizeof(data_type)\<close>. The world around a chunk is the
  parameter store, the accounting of \<^verbatim>\<open>HybridPSManager\<close> (not among the source files)
  and the supply of fresh storages. The clock read by \<^verbatim>\<open>touch\<close> is the argument
  \<open>now\<close> of the operations.
\<close>

record Chunk =
  chunk_id :: int
  capacity :: int
  data_type_size :: int
  device :: torch_device
  payload :: Tensor
  tensor_info_list :: TensorInfoList
  timestamp :: int

record world =
  params :: params
  ps_used :: "torch_device \<Rightarrow> int"
  next_storage :: nat

definition ps_manager_add :: "torch_device \<Rightarrow> int \<Rightarrow> world \<Rightarrow> world" where
  \<comment> \<open>Modelled from the spec: \<^verbatim>\<open>HybridPSManager.add\<close> is missing; the tracker's
      \<^verbatim>\<open>reserve\<close> increments the used bytes of the device.\<close>
  "ps_manager_add dev b w = w\<lparr>ps_used := (ps_used w)(dev := ps_used w dev + b)\<rparr>"

definition ps_manager_delete :: "torch_device \<Rightarrow> int \<Rightarrow> world \<Rightarrow> world" where
  \<comment> \<open>Modelled from the spec: \<^verbatim>\<open>HybridPSManager.delete\<close> is missing; the tracker's
      \<^verbatim>\<open>release\<close> decrements the used bytes of the device.\<close>
  "ps_manager_delete dev b w = w\<lparr>ps_used := (ps_used w)(dev := ps_used w dev - b)\<rparr>"

definition zeros :: "nat \<Rightarrow> torch_device \<Rightarrow> int \<Rightarrow> Tensor" where
  "zeros sid dev n = \<lparr>storage = sid, tensor_device = dev, elements = replicate (nat n) 0\<rparr>"

definition Chunk_new ::
  "world \<Rightarrow> int \<Rightarrow> int \<Rightarrow> int \<Rightarrow> bool \<Rightarrow> torch_device \<Rightarrow> int \<Rightarrow> int \<Rightarrow> Chunk result \<times> world" where
  \<comment> \<open>\<^verbatim>\<open>Chunk.__init__(capacity, data_type, chunk_id)\<close>. \<open>is_init\<close> is
      \<^verbatim>\<open>ps_manager.is_init()\<close>, \<open>scheduled\<close> the device \<^verbatim>\<open>ps_manager.schedule\<close> answers,
      \<open>device_count\<close> is \<^verbatim>\<open>torch.cuda.device_count()\<close>. Raising a string is a
      \<^verbatim>\<open>TypeError\<close>; in the branch that replaces the device by
      \<^verbatim>\<open>torch.cuda.current_device()\<close>, an integer, the payload is created and reading
      \<^verbatim>\<open>self.device.type\<close> then fails. \<^verbatim>\<open>torch.zeros\<close> raises for a negative size.\<close>
  "Chunk_new w capacity' esize cid is_init scheduled device_count now =
     (if \<not> is_init then (Raise TypeError, w)
      else
        (case (dev_type scheduled, dev_index scheduled) of
           (CUDA, None) \<Rightarrow> (Raise TypeError, w)
         | (CUDA, Some k) \<Rightarrow>
             if capacity' < 0 then (Raise RuntimeError, w)
             else if k > device_count
             then (Raise AttributeError, w\<lparr>next_storage := Suc (next_storage w)\<rparr>)
             else
               (Return \<lparr>chunk_id = cid, capacity = capacity', data_type_size = esize,
                        device = scheduled,
                        payload = zeros (next_storage w) scheduled capacity',
                        tensor_info_list = [], timestamp = now\<rparr>,
                ps_manager_add scheduled (capacity' * esize)
                  (w\<lparr>next_storage := Suc (next_storage w)\<rparr>))
         | (CPU, _) \<Rightarrow>
             if capacity' < 0 then (Raise RuntimeError, w)
             else
               (Return \<lparr>chunk_id = cid, capacity = capacity', data_type_size = esize,
                        device = scheduled,
                        payload = zeros (next_storage w) scheduled capacity',
                        tensor_info_list = [], timestamp = now\<rparr>,
                ps_manager_add scheduled (capacity' * esize)
                  (w\<lparr>next_storage := Suc (next_storage w)\<rparr>))))"

definition wrap_start :: "Tensor \<Rightarrow> int \<Rightarrow> int" where
  \<comment> \<open>A negative start counts from the end of the tensor.\<close>
  "wrap_start t st = (if st < 0 then st + int (length (elements t)) else st)"

definition narrow :: "Tensor \<Rightarrow> int \<Rightarrow> int \<Rightarrow> View result" where
  \<comment> \<open>\<^verbatim>\<open>tensor.narrow(0, start, length)\<close>: the length must not be negative, the start
      must lie between minus the size and the size, a negative start counts from the
      end, and the range must end inside the tensor.\<close>
  "narrow t st len =
     (if len < 0 then Raise RuntimeError
      else if st < - int (length (elements t)) \<or> int (length (elements t)) < st
      then Raise IndexError
      else if wrap_start t st + len \<le> int (length (elements t))
      then Return \<lparr>view_storage = storage t, view_offset = wrap_start t st,
                   view_numel = len, view_shape = [nat len]\<rparr>
      else Raise RuntimeError)"

definition view_as :: "View \<Rightarrow> nat list \<Rightarrow> View result" where
  \<comment> \<open>\<^verbatim>\<open>tensor.view(shape)\<close> raises when the shape has another element count.\<close>
  "view_as v shape =
     (if shape_numel shape = view_numel v then Return (v\<lparr>view_shape := shape\<rparr>)
      else Raise RuntimeError)"

definition zero_range :: "int \<Rightarrow> int \<Rightarrow> int list \<Rightarrow> int list" where
  "zero_range st len xs =
     take (nat st) xs @ replicate (nat len) 0 @ drop (nat (st + len)) xs"

definition read_view :: "Tensor \<Rightarrow> View \<Rightarrow> int list" where
  "read_view t v = take (nat (view_numel v)) (drop (nat (view_offset v)) (elements t))"

definition allocate ::
  "world \<Rightarrow> Chunk \<Rightarrow> int \<Rightarrow> int \<Rightarrow> nat \<Rightarrow> AccessType \<Rightarrow> int \<Rightarrow> View result \<times> Chunk \<times> world" where
  "allocate w c offset' numel' p a now =
     (case narrow (payload c) offset' numel' of
        Raise e \<Rightarrow> (Raise e, c, w)
      | Return dest \<Rightarrow>
          (Return dest,
           c\<lparr>payload := (payload c)
                \<lparr>elements := zero_range (view_offset dest) numel' (elements (payload c))\<rparr>,
             tensor_info_list :=
               TensorInfoList_add (params w) \<lparr>start = offset', param = p, access_type = a\<rparr>
                 (tensor_info_list c),
             timestamp := now\<rparr>,
           w))"

text \<open>
  The scan of \<^verbatim>\<open>try_allocate\<close>: \<open>Inl\<close> is the offset of the gap the loop stopped at,
  \<open>Inr\<close> the value of \<^verbatim>\<open>prev_end\<close> when the loop ran to its end.
\<close>

fun find_gap :: "params \<Rightarrow> int \<Rightarrow> int \<Rightarrow> TensorInfo list \<Rightarrow> int + int" where
  "find_gap h numel' prev_end [] = Inr prev_end"
| "find_gap h numel' prev_end (info # rest) =
     (if status h info = TENSOR_FREE then find_gap h numel' prev_end rest
      else if start info - prev_end \<ge> numel' then Inl prev_end
      else find_gap h numel' (start info + numel h info) rest)"

definition try_allocate ::
  "world \<Rightarrow> Chunk \<Rightarrow> nat \<Rightarrow> AccessType \<Rightarrow> int \<Rightarrow> View option result \<times> Chunk \<times> world" where
  "try_allocate w c p a now =
     (let numel' = shape_numel (ps_shape (params w p))
      in case find_gap (params w) numel' 0 (generate_in_sorted_order (tensor_info_list c)) of
           Inl prev_end \<Rightarrow>
             (case allocate w c prev_end numel' p a now of
                (Raise e, c', w') \<Rightarrow> (Raise e, c', w')
              | (Return dest, c', w') \<Rightarrow> (Return (Some dest), c', w'))
         | Inr prev_end \<Rightarrow>
             if capacity c - prev_end \<ge> numel' then
               (case allocate w c prev_end numel' p a now of
                  (Raise e, c', w') \<Rightarrow> (Raise e, c', w')
                | (Return dest, c', w') \<Rightarrow> (Return (Some dest), c', w'))
             else (Return None, c, w))"

fun repoint ::
  "params \<Rightarrow> Tensor \<Rightarrow> (int \<rightharpoonup> nat) \<Rightarrow> (int \<rightharpoonup> nat) \<Rightarrow> TensorInfo list \<Rightarrow> unit result \<times> params" where
  "repoint h pl param_data_dict param_grad_dict [] = (Return (), h)"
| "repoint h pl param_data_dict param_grad_dict (info # rest) =
     (let tid = tensor_id h info; st = start info; sz = numel h info
      in if status h info = TENSOR_FREE then repoint h pl param_data_dict param_grad_dict rest
         else
           (case param_data_dict tid of
              Some p \<Rightarrow>
                (case narrow pl st sz of
                   Raise e \<Rightarrow> (Raise e, h)
                 | Return v \<Rightarrow>
                     (case view_as v (ps_shape (h p)) of
                        Raise e \<Rightarrow> (Raise e, h)
                      | Return v' \<Rightarrow>
                          repoint (h(p := (h p)\<lparr>ps_data_tensor := Some v', param_data := Some v'\<rparr>))
                            pl param_data_dict param_grad_dict rest))
            | None \<Rightarrow>
                (case param_grad_dict tid of
                   Some p \<Rightarrow>
                     (case narrow pl st sz of
                        Raise e \<Rightarrow> (Raise e, h)
                      | Return v \<Rightarrow>
                          (case view_as v (ps_shape (h p)) of
                             Raise e \<Rightarrow> (Raise e, h)
                           | Return v' \<Rightarrow>
                               repoint (h(p := (h p)\<lparr>ps_grad_tensor := Some v', param_grad := None\<rparr>))
                                 pl param_data_dict param_grad_dict rest))
                 | None \<Rightarrow> (Raise RuntimeError, h))))"

definition move ::
  "world \<Rightarrow> Chunk \<Rightarrow> (int \<rightharpoonup> nat) \<Rightarrow> (int \<rightharpoonup> nat) \<Rightarrow> torch_device \<Rightarrow> int
     \<Rightarrow> unit result \<times> Chunk \<times> world" where
  "move w c param_data_dict param_grad_dict target_device now =
     (if device c = target_device then (Return (), c, w)
      else
        (let pl = \<lparr>storage = next_storage w, tensor_device = target_device,
                   elements = elements (payload c)\<rparr>;
             c1 = c\<lparr>payload := pl\<rparr>;
             w1 = ps_manager_delete (device c) (capacity c * data_type_size c)
                    (ps_manager_add target_device (capacity c * data_type_size c)
                       (w\<lparr>next_storage := Suc (next_storage w)\<rparr>))
         in case repoint (params w1) pl param_data_dict param_grad_dict
                   (generate_in_sorted_order (tensor_info_list c1)) of
              (Raise e, h) \<Rightarrow> (Raise e, c1, w1\<lparr>params := h\<rparr>)
            | (Return _, h) \<Rightarrow>
                (Return (), c1\<lparr>device := target_device, timestamp := now\<rparr>, w1\<lparr>params := h\<rparr>)))"

fun status_scan :: "params \<Rightarrow> bool \<Rightarrow> TensorInfo list \<Rightarrow> PSChunkStatus" where
  "status_scan h free_flag [] = (if free_flag then CHUNK_FREE else CHUNK_HOLD)"
| "status_scan h free_flag (info # rest) =
     (if status h info = TENSOR_COMPUTE then CHUNK_COMPUTE
      else if status h info \<noteq> TENSOR_FREE then status_scan h False rest
      else status_scan h free_flag rest)"

definition get_status :: "params \<Rightarrow> Chunk \<Rightarrow> PSChunkStatus" where
  "get_status h c =
     (if get_len (tensor_info_list c) = 0 then CHUNK_FREE
      else status_scan h True (generate_in_sorted_order (tensor_info_list c)))"

subsection \<open>Vocabulary for stating the chunk's properties\<close>

text \<open>
  The descriptors a chunk hosts, in the order of the dict; a descriptor is resident when
  its status is not \<^verbatim>\<open>FREE\<close>. \<open>occupied\<close> lists the ranges (start, element count) of
  the resident descriptors, the descriptors sorted by start. \<open>gaps\<close> lists each gap as
  (start of the gap, size): a gap runs from the end of a range, or from 0, to the start
  of the next range, and the last one to the capacity. \<open>first_fit\<close> is the start of the
  first gap that holds the request.
\<close>

definition hosted :: "Chunk \<Rightarrow> TensorInfo list" where
  "hosted c = map snd (tensor_info_list c)"

definition resident :: "params \<Rightarrow> TensorInfo \<Rightarrow> bool" where
  "resident h info = (status h info \<noteq> TENSOR_FREE)"

definition occupied :: "params \<Rightarrow> Chunk \<Rightarrow> (int \<times> int) list" where
  "occupied h c =
     map (\<lambda>info. (start info, numel h info)) (filter (resident h) (sort_key start (hosted c)))"

definition gaps :: "(int \<times> int) list \<Rightarrow> int \<Rightarrow> (int \<times> int) list" where
  "gaps rs cap =
     map (\<lambda>(e, s). (e, s - e)) (zip (0 # map (\<lambda>(s, n). s + n) rs) (map fst rs @ [cap]))"

definition first_fit :: "int \<Rightarrow> (int \<times> int) list \<Rightarrow> int option" where
  "first_fit n gs = map_option fst (find (\<lambda>(off, sz). n \<le> sz) gs)"

text \<open>
  The gaps behind a given end, range by range.
\<close>

fun gaps_from :: "int \<Rightarrow> (int \<times> int) list \<Rightarrow> int \<Rightarrow> (int \<times> int) list" where
  "gaps_from e [] cap = [(e, cap - e)]"
| "gaps_from e ((s, n) # rest) cap = (e, s - e) # gaps_from (s + n) rest cap"

text \<open>
  The payload has \<open>capacity\<close> elements and every resident descriptor lies inside it.
\<close>

definition in_range :: "params \<Rightarrow> Chunk \<Rightarrow> bool" where
  "in_range h c =
     (int (length (elements (payload c))) = capacity c
      \<and> list_all (\<lambda>(s, n). 0 \<le> s \<and> s + n \<le> capacity c) (occupied h c))"

text \<open>
  \<open>item_view\<close> is the view \<^verbatim>\<open>move\<close> builds for a descriptor and a parameter: the
  descriptor's range of the payload, seen with the parameter's shape. A descriptor is
  relocated when its owning parameter, \<open>param info\<close>, holds the view of the descriptor's
  range seen with the owner's shape: in \<^verbatim>\<open>ps_data_tensor\<close> for a data descriptor, in
  \<^verbatim>\<open>ps_grad_tensor\<close> for a gradient descriptor.

  The caller of \<^verbatim>\<open>move\<close> supplies the dicts from id to parameter. A descriptor is
  resolved when they lead from its id to its owning parameter, on the path \<^verbatim>\<open>move\<close>
  takes for the descriptor's kind: the data dict for a data descriptor; for a gradient
  descriptor the grad dict, the data dict having no entry for the id. \<open>same_meta\<close>:
  shapes, ids and statuses of all parameters are the same.
\<close>

definition item_view :: "params \<Rightarrow> Tensor \<Rightarrow> TensorInfo \<Rightarrow> nat \<Rightarrow> View" where
  "item_view h pl info p =
     \<lparr>view_storage = storage pl, view_offset = wrap_start pl (start info),
      view_numel = numel h info, view_shape = ps_shape (h p)\<rparr>"

definition relocated :: "params \<Rightarrow> params \<Rightarrow> Tensor \<Rightarrow> TensorInfo \<Rightarrow> bool" where
  "relocated h h' pl info =
     (case access_type info of
        DATA \<Rightarrow> ps_data_tensor (h' (param info)) = Some (item_view h pl info (param info))
      | GRAD \<Rightarrow> ps_grad_tensor (h' (param info)) = Some (item_view h pl info (param info)))"

definition resolved :: "params \<Rightarrow> (int \<rightharpoonup> nat) \<Rightarrow> (int \<rightharpoonup> nat) \<Rightarrow> TensorInfo \<Rightarrow> bool" where
  "resolved h param_data_dict param_grad_dict info =
     (case access_type info of
        DATA \<Rightarrow> param_data_dict (tensor_id h info) = Some (param info)
      | GRAD \<Rightarrow> param_data_dict (tensor_id h info) = None
                \<and> param_grad_dict (tensor_id h info) = Some (param info))"

definition owners_resolved ::
  "params \<Rightarrow> Chunk \<Rightarrow> (int \<rightharpoonup> nat) \<Rightarrow> (int \<rightharpoonup> nat) \<Rightarrow> bool" where
  "owners_resolved h c param_data_dict param_grad_dict =
     list_all (\<lambda>info. status h info = TENSOR_FREE
                      \<or> resolved h param_data_dict param_grad_dict info)
       (hosted c)"

definition same_meta :: "params \<Rightarrow> params \<Rightarrow> bool" where
  "same_meta h h' =
     (\<forall>q. ps_shape (h' q) = ps_shape (h q) \<and> ps_data_id (h' q) = ps_data_id (h q)
         \<and> ps_grad_id (h' q) = ps_grad_id (h q) \<and> data_status (h' q) = data_status (h q)
         \<and> grad_status (h' q) = grad_status (h q))"

subsection \<open>Concrete chunks\<close>

text \<open>
  A chunk on the CPU hosting a data tensor in use, a gradient tensor in use and a
  released data tensor whose id is in neither dict.
\<close>

definition demo_param2 :: "nat list \<Rightarrow> int \<Rightarrow> PSTensorStatus \<Rightarrow> PSTensorStatus \<Rightarrow> Param" where
  "demo_param2 shape i ds gs =
     \<lparr>ps_shape = shape, ps_data_id = i, ps_grad_id = i + 100,
      data_status = ds, grad_status = gs,
      ps_data_tensor = None, ps_grad_tensor = None, param_data = None, param_grad = None\<rparr>"

definition move_world :: world where
  "move_world =
     \<lparr>params = (\<lambda>r. if r = 0 then demo_param2 [2, 2] 1 TENSOR_HOLD TENSOR_FREE
                    else if r = 1 then demo_param2 [3] 2 TENSOR_FREE TENSOR_COMPUTE
                    else demo_param2 [2] (int r + 1) TENSOR_FREE TENSOR_FREE),
      ps_used = (\<lambda>d. if d = Device CPU None then 40 else 0), next_storage = 1\<rparr>"

definition move_chunk :: Chunk where
  "move_chunk =
     \<lparr>chunk_id = 0, capacity = 10, data_type_size = 4, device = Device CPU None,
      payload = \<lparr>storage = 0, tensor_device = Device CPU None,
                 elements = [11, 12, 13, 14, 21, 22, 23, 31, 32, 33]\<rparr>,
      tensor_info_list =
        [(1, \<lparr>start = 0, param = 0, access_type = DATA\<rparr>),
         (102, \<lparr>start = 4, param = 1, access_type = GRAD\<rparr>),
         (3, \<lparr>start = 7, param = 2, access_type = DATA\<rparr>)],
      timestamp = 0\<rparr>"

definition move_data_dict :: "int \<rightharpoonup> nat" where
  "move_data_dict = [1 \<mapsto> 0]"

definition move_grad_dict :: "int \<rightharpoonup> nat" where
  "move_grad_dict = [102 \<mapsto> 1]"

text \<open>
  The same chunk when the gradient tensor was allocated first: the dict lists it before
  the data tensor that starts at 0.
\<close>

definition shuffled_chunk :: Chunk where
  "shuffled_chunk =
     move_chunk\<lparr>tensor_info_list :=
       [(102, \<lparr>start = 4, param = 1, access_type = GRAD\<rparr>),
        (1, \<lparr>start = 0, param = 0, access_type = DATA\<rparr>),
        (3, \<lparr>start = 7, param = 2, access_type = DATA\<rparr>)]\<rparr>"

text \<open>
  The same chunk where a second parameter object carries the id and the element count
  of the first descriptor's owner, and the data dict resolves the id to it.
\<close>

definition alias_world :: world where
  "alias_world =
     move_world\<lparr>params := (params move_world)(7 := demo_param2 [4] 1 TENSOR_HOLD TENSOR_FREE)\<rparr>"

definition alias_data_dict :: "int \<rightharpoonup> nat" where
  "alias_data_dict = [1 \<mapsto> 7]"

text \<open>
  A chunk hosting the data tensor and the gradient tensor of one parameter, both in
  use, and a data dict that has an entry for the gradient's id too.
\<close>

definition twin_world :: world where
  "twin_world =
     \<lparr>params = (\<lambda>r. if r = 0 then demo_param2 [2, 2] 1 TENSOR_HOLD TENSOR_HOLD
                    else demo_param2 [2] (int r + 1) TENSOR_FREE TENSOR_FREE),
      ps_used = (\<lambda>d. if d = Device CPU None then 40 else 0), next_storage = 1\<rparr>"

definition twin_chunk :: Chunk where
  "twin_chunk =
     \<lparr>chunk_id = 0, capacity = 10, data_type_size = 4, device = Device CPU None,
      payload = \<lparr>storage = 0, tensor_device = Device CPU None,
                 elements = [11, 12, 13, 14, 21, 22, 23, 24, 0, 0]\<rparr>,
      tensor_info_list =
        [(1, \<lparr>start = 0, param = 0, access_type = DATA\<rparr>),
         (101, \<lparr>start = 4, param = 0, access_type = GRAD\<rparr>)],
      timestamp = 0\<rparr>"

definition twin_data_dict :: "int \<rightharpoonup> nat" where
  "twin_data_dict = [1 \<mapsto> 0, 101 \<mapsto> 0]"

definition twin_grad_dict :: "int \<rightharpoonup> nat" where
  "twin_grad_dict = [101 \<mapsto> 0]"

text \<open>
  A chunk hosting two data descriptors of one parameter, both in use: the second is
  stored under the id the parameter had before.
\<close>

definition stale_chunk :: Chunk where
  "stale_chunk =
     \<lparr>chunk_id = 0, capacity = 10, data_type_size = 4, device = Device CPU None,
      payload = \<lparr>storage = 0, tensor_device = Device CPU None,
                 elements = [11, 12, 13, 14, 21, 22, 23, 24, 0, 0]\<rparr>,
      tensor_info_list =
        [(1, \<lparr>start = 0, param = 0, access_type = DATA\<rparr>),
         (9, \<lparr>start = 4, param = 0, access_type = DATA\<rparr>)],
      timestamp = 0\<rparr>"

text \<open>
  An empty chunk of ten elements and three parameters in use, of four, zero and five
  elements; \<open>allocate_all\<close> is the chunk after \<^verbatim>\<open>try_allocate\<close> was called for each
  request of a list in turn.
\<close>

definition zero_world :: world where
  "zero_world =
     \<lparr>params = (\<lambda>r. if r = 0 then demo_param2 [4] 1 TENSOR_HOLD TENSOR_FREE
                    else if r = 1 then demo_param2 [0] 2 TENSOR_HOLD TENSOR_FREE
                    else demo_param2 [5] 3 TENSOR_HOLD TENSOR_FREE),
      ps_used = (\<lambda>_. 0), next_storage = 1\<rparr>"

definition fresh_chunk :: Chunk where
  "fresh_chunk =
     \<lparr>chunk_id = 0, capacity = 10, data_type_size = 4, device = Device CPU None,
      payload = zeros 0 (Device CPU None) 10, tensor_info_list = [], timestamp = 0\<rparr>"

definition allocate_all :: "world \<Rightarrow> Chunk \<Rightarrow> (nat \<times> AccessType) list \<Rightarrow> Chunk" where
  "allocate_all w c ps = fold (\<lambda>(p, a) c. fst (snd (try_allocate w c p a 0))) ps c"

definition ranges_overlap :: "params \<Rightarrow> TensorInfo \<Rightarrow> TensorInfo \<Rightarrow> bool" where
  \<comment> \<open>The half-open ranges of two descriptors share an element.\<close>
  "ranges_overlap h i j =
     (max (start i) (start j) < min (start i + numel h i) (start j + numel h j))"

text \<open>
  The invariant of a chunk filled through \<^verbatim>\<open>try_allocate\<close> with parameters of at least
  one element: the payload has \<open>capacity\<close> elements, the dict's keys are distinct, every
  resident descriptor lies inside the payload and has an element, and the ranges of two
  resident descriptors stored under different keys do not overlap.
\<close>

definition disjoint_inv :: "params \<Rightarrow> Chunk \<Rightarrow> bool" where
  "disjoint_inv h c =
     (int (length (elements (payload c))) = capacity c
      \<and> distinct (map fst (tensor_info_list c))
      \<and> (\<forall>(k, i)\<in>set (tensor_info_list c).
            resident h i \<longrightarrow> 0 \<le> start i \<and> start i + numel h i \<le> capacity c \<and> 1 \<le> numel h i)
      \<and> (\<forall>(k, i)\<in>set (tensor_info_list c). \<forall>(k', j)\<in>set (tensor_info_list c).
            k \<noteq> k' \<and> resident h i \<and> resident h j \<longrightarrow> \<not> ranges_overlap h i j))"

section \<open>Properties of the directory\<close>

lemma run_calls_ids:
  "fst (run_calls p cs) =
     map (\<lambda>k. generated_chunk_id p + 1 + int k) [0..<length (filter is_Generate cs)]"
proof (induction cs arbitrary: p)
  case Nil
  show ?case by simp
next
  case (Cons c cs)
  show ?case
  proof (cases c)
    case (Construct lr)
    then show ?thesis using Cons.IH [of "construct p lr"]
      by (simp add: construct_def)
  next
    case (Generate self)
    let ?p' = "p\<lparr>generated_chunk_id := generated_chunk_id p + 1\<rparr>"
    have "[0..<Suc n] = 0 # map Suc [0..<n]" for n
      by (simp add: upt_conv_Cons map_Suc_upt del: upt_Suc)
    then show ?thesis using Generate Cons.IH [of ?p']
      by (auto simp add: generate_chunk_id_def Let_def algebra_simps
            split: prod.splits simp del: upt_Suc)
  qed
qed

text \<open>
  C10. The counter lives on the class: over any interleaving of constructing
  \<^verbatim>\<open>ChunkList\<close> instances and calling \<^verbatim>\<open>generate_chunk_id\<close> on any of them, starting
  from a fresh process, the ids returned are 0, 1, 2, ... in call order (so strictly
  increasing and never reused), and constructing an instance does not restart them.
\<close>

theorem generate_chunk_id_class_counter:
  "fst (run_calls initial_process cs) = map int [0..<length (filter is_Generate cs)]
   \<and> distinct (fst (run_calls initial_process cs))
   \<and> sorted_wrt (<) (fst (run_calls initial_process cs))
   \<and> generated_chunk_id (construct p lr) = generated_chunk_id p"
proof -
  have a: "fst (run_calls initial_process cs) = map int [0..<length (filter is_Generate cs)]"
    by (simp add: run_calls_ids initial_process_def)
  have b: "distinct (map int [0..<n])" for n
    by (simp add: distinct_map inj_on_def)
  have c: "sorted_wrt (<) (map int [0..<n])" for n
    by (simp add: sorted_wrt_map sorted_wrt_iff_nth_less)
  show ?thesis using a b c by (simp add: construct_def)
qed

subsection \<open>Frame lemmas\<close>

lemma map_of_set_chunk:
  "map_of (set_chunk i c m) j =
     (if j = i then map_option (\<lambda>_. c) (map_of m i) else map_of m j)"
  by (induction m) (auto simp: set_chunk_def)

lemma keys_set_chunk: "map fst (set_chunk i c m) = map fst m"
  by (induction m) (auto simp: set_chunk_def)

lemma keys_with_chunk: "map fst (id_to_chunk_map (with_chunk i f s)) = map fst (id_to_chunk_map s)"
  by (auto simp: with_chunk_def keys_set_chunk split: option.splits prod.splits)

lemma map_of_with_chunk_other:
  "j \<noteq> i \<Longrightarrow> map_of (id_to_chunk_map (with_chunk i f s)) j = map_of (id_to_chunk_map s) j"
  by (auto simp: with_chunk_def map_of_set_chunk split: option.splits prod.splits)

lemma map_of_with_chunk_same:
  "map_of (id_to_chunk_map s) i = Some c \<Longrightarrow>
   map_of (id_to_chunk_map (with_chunk i f s)) i = Some (fst (f c (mgr s)))"
  by (auto simp: with_chunk_def map_of_set_chunk split: option.splits prod.splits)

lemma keys_chunk_move:
  "chunk_move s i dev = (r, s') \<Longrightarrow> map fst (id_to_chunk_map s') = map fst (id_to_chunk_map s)"
  by (auto simp: chunk_move_def keys_with_chunk split: option.splits if_splits)

lemma chunk_move_other:
  "chunk_move s i dev = (r, s') \<Longrightarrow> j \<noteq> i \<Longrightarrow>
   map_of (id_to_chunk_map s') j = map_of (id_to_chunk_map s) j"
  by (auto simp: chunk_move_def map_of_with_chunk_other split: option.splits if_splits)

lemma keys_move_all:
  "move_all s ids dev = (r, s') \<Longrightarrow> map fst (id_to_chunk_map s') = map fst (id_to_chunk_map s)"
proof (induction ids arbitrary: s)
  case Nil
  then show ?case by simp
next
  case (Cons i ids)
  obtain r1 s1 where m: "chunk_move s i dev = (r1, s1)" by (cases "chunk_move s i dev")
  show ?case
  proof (cases r1)
    case (Raise e)
    then show ?thesis using Cons.prems m keys_chunk_move [OF m] by simp
  next
    case (Return u)
    then have "move_all s1 ids dev = (r, s')" using Cons.prems m by simp
    then show ?thesis using Cons.IH keys_chunk_move [OF m] by simp
  qed
qed

lemma move_all_other:
  "move_all s ids dev = (r, s') \<Longrightarrow> j \<notin> set ids \<Longrightarrow>
   map_of (id_to_chunk_map s') j = map_of (id_to_chunk_map s) j"
proof (induction ids arbitrary: s)
  case Nil
  then show ?case by simp
next
  case (Cons i ids)
  obtain r1 s1 where m: "chunk_move s i dev = (r1, s1)" by (cases "chunk_move s i dev")
  have ji: "j \<noteq> i" "j \<notin> set ids" using Cons.prems(2) by auto
  show ?case
  proof (cases r1)
    case (Raise e)
    then show ?thesis using Cons.prems m chunk_move_other [OF m ji(1)] by simp
  next
    case (Return u)
    then have "move_all s1 ids dev = (r, s')" using Cons.prems m by simp
    then show ?thesis using Cons.IH ji(2) chunk_move_other [OF m ji(1)] by simp
  qed
qed

lemma keys_prepare_device:
  "prepare_device nam s dev need = (r, s') \<Longrightarrow>
   map fst (id_to_chunk_map s') = map fst (id_to_chunk_map s)"
  by (auto simp: prepare_device_def Let_def keys_move_all split: if_splits result.splits)


subsection \<open>Victim selection\<close>

lemma sort_min_remove1:
  fixes q :: "'a::linorder list"
  assumes "q \<noteq> []"
  shows "sort q = min_list q # sort (remove1 (min_list q) q)"
proof -
  let ?m = "min_list q"
  have m: "?m = Min (set q)" using assms by (simp add: min_list_Min)
  have mem: "?m \<in> set q" using assms by (rule min_list_mem)
  have "mset (?m # sort (remove1 ?m q)) = mset q" using mem by simp
  moreover have "sorted (?m # sort (remove1 ?m q))"
  proof -
    have "?m \<le> x" if "x \<in> set (remove1 ?m q)" for x
    proof -
      have "x \<in> set q" using that set_remove1_subset by fast
      then show ?thesis unfolding m by simp
    qed
    then show ?thesis by simp
  qed
  ultimately show ?thesis by (metis properties_for_sort)
qed

lemma fill_queue_eq:
  "fill_queue nam dev m q =
     q @ map (\<lambda>(i, c). (- nam c dev, i)) (filter (\<lambda>(i, c). movable dev c) m)"
  by (induction m arbitrary: q) (auto simp: pq_put_def)

lemma drain_char:
  assumes "snd ` set q \<subseteq> fst ` set m"
  shows "\<exists>n\<le>length q.
           drain m need q mb ml =
             Return (mb + sum_list (map (payload_of m) (take n (map snd (sort q)))),
                     ml @ take n (map snd (sort q)))
         \<and> (q \<noteq> [] \<longrightarrow> 0 < n)
         \<and> (\<forall>k. 0 < k \<and> k < n \<longrightarrow>
                mb + sum_list (map (payload_of m) (take k (map snd (sort q)))) < need)
         \<and> (n < length q \<longrightarrow>
                need \<le> mb + sum_list (map (payload_of m) (take n (map snd (sort q)))))"
  using assms
proof (induction "length q" arbitrary: q mb ml)
  case 0
  then show ?case by (simp add: drain.simps pq_empty_def)
next
  case (Suc l)
  then have ne: "q \<noteq> []" by auto
  obtain a i where ai: "min_list q = (a, i)" by (cases "min_list q")
  let ?q' = "remove1 (a, i) q"
  have srt: "sort q = (a, i) # sort ?q'" using sort_min_remove1 [OF ne] ai by simp
  have mem: "(a, i) \<in> set q" using min_list_mem [OF ne] ai by simp
  then obtain c where c: "map_of m i = Some c"
  proof -
    have "i \<in> fst ` set m" using mem Suc.prems by force
    then show ?thesis using that by (cases "map_of m i") (auto simp: map_of_eq_None_iff)
  qed
  have pay: "payload_of m i = get_payload_space c" by (simp add: payload_of_def c)
  have len: "l = length ?q'" using Suc.hyps(2) mem by (simp add: length_remove1)
  have sub: "snd ` set ?q' \<subseteq> fst ` set m"
    using Suc.prems by (meson image_mono order_trans set_remove1_subset)
  show ?case
  proof (cases "need \<le> mb + get_payload_space c")
    case True
    have "drain m need q mb ml = Return (mb + get_payload_space c, ml @ [i])"
      using ne True c ai by (subst drain.simps) (simp add: pq_empty_def pq_get_def)
    then show ?thesis using ne True
      by (intro exI [of _ 1]) (auto simp: srt pay Suc_le_eq)
  next
    case False
    have d: "drain m need q mb ml = drain m need ?q' (mb + get_payload_space c) (ml @ [i])"
      using ne False c ai by (subst drain.simps) (simp add: pq_empty_def pq_get_def)
    from Suc.hyps(1) [OF len sub, of "mb + get_payload_space c" "ml @ [i]"]
    obtain n where n: "n \<le> length ?q'"
      "drain m need ?q' (mb + get_payload_space c) (ml @ [i]) =
         Return (mb + get_payload_space c + sum_list (map (payload_of m) (take n (map snd (sort ?q')))),
                 (ml @ [i]) @ take n (map snd (sort ?q')))"
      "?q' \<noteq> [] \<longrightarrow> 0 < n"
      "\<forall>k. 0 < k \<and> k < n \<longrightarrow>
          mb + get_payload_space c + sum_list (map (payload_of m) (take k (map snd (sort ?q')))) < need"
      "n < length ?q' \<longrightarrow>
          need \<le> mb + get_payload_space c + sum_list (map (payload_of m) (take n (map snd (sort ?q'))))"
      by blast
    have k: "mb + sum_list (map (payload_of m) (take k (map snd (sort q)))) < need"
      if "0 < k" "k < Suc n" for k
    proof (cases k)
      case 0 then show ?thesis using that by simp
    next
      case (Suc k')
      show ?thesis
      proof (cases k')
        case 0 then show ?thesis using Suc False by (simp add: srt pay)
      next
        case (Suc k'')
        then show ?thesis using n(4) that \<open>k = Suc k'\<close> by (simp add: srt pay add.assoc)
      qed
    qed
    show ?thesis
      apply (rule exI [of _ "Suc n"])
      using n(1) n(2) n(5) k len Suc.hyps(2) d
      by (simp add: srt pay add.assoc)
  qed
qed


lemma sum_list_take_le:
  fixes f :: "'a \<Rightarrow> int"
  assumes "\<forall>x\<in>set xs. 0 \<le> f x"
  shows "sum_list (map f (take n xs)) \<le> sum_list (map f xs)"
proof -
  have "sum_list (map f xs) = sum_list (map f (take n xs)) + sum_list (map f (drop n xs))"
    by (metis append_take_drop_id map_append sum_list_append)
  moreover have "0 \<le> sum_list (map f (drop n xs))"
  proof (rule sum_list_nonneg)
    fix y assume "y \<in> set (map f (drop n xs))"
    then obtain x where "x \<in> set (drop n xs)" "y = f x" by auto
    then show "0 \<le> y" using assms in_set_dropD by fast
  qed
  ultimately show ?thesis by simp
qed

lemma candidates_lookup:
  assumes "distinct (map fst (id_to_chunk_map s))" "(i, c) \<in> set (candidates s dev)"
  shows "map_of (id_to_chunk_map s) i = Some c"
  using assms by (simp add: candidates_def)

lemma set_eviction_order:
  "set (eviction_order nam s dev) = fst ` set (candidates s dev)"
  by (force simp: eviction_order_def)

lemma sorted_eviction_order:
  assumes d: "distinct (map fst (id_to_chunk_map s))"
  shows "sorted_wrt (\<lambda>i j. mom_of nam s dev j < mom_of nam s dev i
                          \<or> (mom_of nam s dev i = mom_of nam s dev j \<and> i < j))
           (eviction_order nam s dev)"
proof -
  let ?key = "\<lambda>(i, c). (- nam c dev, i)"
  let ?ks = "map ?key (candidates s dev)"
  have dc: "distinct (map fst (candidates s dev))"
    using d by (simp add: candidates_def distinct_map_filter)
  have "map snd ?ks = map fst (candidates s dev)" by (rule nth_equalityI) (auto simp: case_prod_unfold)
  then have "distinct (map snd ?ks)" using dc by (simp only:)
  moreover have "mset (map snd (sort ?ks)) = mset (map snd ?ks)"
    by (simp only: mset_map mset_sort)
  ultimately have dk: "distinct (map snd (sort ?ks))"
    using mset_eq_imp_distinct_iff by blast
  then have "distinct (sort ?ks)" by (simp only: distinct_map)
  then have st: "sorted_wrt (<) (sort ?ks)" by (simp add: strict_sorted_iff)
  have key: "a = - mom_of nam s dev i" if "(a, i) \<in> set (sort ?ks)" for a i
  proof -
    from that obtain c where c: "(i, c) \<in> set (candidates s dev)" "a = - nam c dev" by auto
    then show ?thesis using candidates_lookup [OF d c(1)] by (simp add: mom_of_def)
  qed
  have "sorted_wrt (\<lambda>x y. mom_of nam s dev (snd y) < mom_of nam s dev (snd x)
          \<or> (mom_of nam s dev (snd x) = mom_of nam s dev (snd y) \<and> snd x < snd y)) (sort ?ks)"
  proof (rule sorted_wrt_mono_rel [OF _ st])
    fix x y assume "x \<in> set (sort ?ks)" "y \<in> set (sort ?ks)" "x < y"
    then show "mom_of nam s dev (snd y) < mom_of nam s dev (snd x)
          \<or> (mom_of nam s dev (snd x) = mom_of nam s dev (snd y) \<and> snd x < snd y)"
      using key [of "fst x" "snd x"] key [of "fst y" "snd y"]
      by (cases x; cases y) (auto simp: less_prod_def)
  qed
  then show ?thesis by (simp add: eviction_order_def sorted_wrt_map)
qed

lemma payload_nonneg_order:
  assumes d: "distinct (map fst (id_to_chunk_map s))"
      and nn: "list_all (\<lambda>(i, c). 0 \<le> get_payload_space c) (candidates s dev)"
  shows "\<forall>i\<in>set (eviction_order nam s dev). 0 \<le> payload_of (id_to_chunk_map s) i"
proof
  fix i assume "i \<in> set (eviction_order nam s dev)"
  then obtain c where c: "(i, c) \<in> set (candidates s dev)"
    by (auto simp: set_eviction_order)
  then show "0 \<le> payload_of (id_to_chunk_map s) i"
    using candidates_lookup [OF d c] nn by (auto simp: payload_of_def list_all_iff)
qed

text \<open>
  C1. Victim selection, for a deficit \<open>need\<close> on the tier of \<open>dev\<close>. The candidates'
  ids are ordered by predicted next access moment descending, ties broken by ascending
  id. When the payload bytes of all candidates together are below the deficit the call
  raises; otherwise it returns the shortest non-empty prefix of that order whose
  cumulative payload bytes reach the deficit (the empty list only when there is no
  candidate). Payload sizes are byte counts, so not negative, and the directory is a
  dict, so its keys are distinct.
\<close>

theorem victim_selection:
  assumes d: "distinct (map fst (id_to_chunk_map s))"
      and nn: "list_all (\<lambda>(i, c). 0 \<le> get_payload_space c) (candidates s dev)"
  shows "set (eviction_order nam s dev) = fst ` set (candidates s dev)
       \<and> sorted_wrt (\<lambda>i j. mom_of nam s dev j < mom_of nam s dev i
                          \<or> (mom_of nam s dev i = mom_of nam s dev j \<and> i < j))
           (eviction_order nam s dev)
       \<and> (if evicted_bytes nam s dev (length (eviction_order nam s dev)) < need
          then chunk_to_move_out_for_room_making nam s need dev = Raise RuntimeError
          else \<exists>n\<le>length (eviction_order nam s dev).
                 chunk_to_move_out_for_room_making nam s need dev
                   = Return (take n (eviction_order nam s dev))
               \<and> (eviction_order nam s dev \<noteq> [] \<longrightarrow> 0 < n)
               \<and> need \<le> evicted_bytes nam s dev n
               \<and> (\<forall>k. 0 < k \<and> k < n \<longrightarrow> evicted_bytes nam s dev k < need))"
proof -
  let ?m = "id_to_chunk_map s"
  let ?q = "fill_queue nam dev ?m []"
  let ?ord = "eviction_order nam s dev"
  have q: "?q = map (\<lambda>(i, c). (- nam c dev, i)) (candidates s dev)"
    by (simp add: fill_queue_eq candidates_def)
  have ord: "map snd (sort ?q) = ?ord" by (simp add: q eviction_order_def)
  have len: "length ?q = length ?ord" by (simp add: q eviction_order_def)
  have sub: "snd ` set ?q \<subseteq> fst ` set ?m"
    by (force simp: q candidates_def)
  from drain_char [OF sub, of need 0 "[]"]
  obtain n where n: "n \<le> length ?ord"
    "drain ?m need ?q 0 [] = Return (evicted_bytes nam s dev n, take n ?ord)"
    "?ord \<noteq> [] \<longrightarrow> 0 < n"
    "\<forall>k. 0 < k \<and> k < n \<longrightarrow> evicted_bytes nam s dev k < need"
    "n < length ?ord \<longrightarrow> need \<le> evicted_bytes nam s dev n"
    unfolding ord len evicted_bytes_def by (auto simp: q eviction_order_def)
  have le: "evicted_bytes nam s dev n \<le> evicted_bytes nam s dev (length ?ord)"
    unfolding evicted_bytes_def
    using sum_list_take_le [OF payload_nonneg_order [OF d nn], of n nam] by simp
  have sel: "chunk_to_move_out_for_room_making nam s need dev =
      (if evicted_bytes nam s dev n < need then Raise RuntimeError else Return (take n ?ord))"
    by (simp add: chunk_to_move_out_for_room_making_def n(2))
  have third: "(if evicted_bytes nam s dev (length ?ord) < need
          then chunk_to_move_out_for_room_making nam s need dev = Raise RuntimeError
          else \<exists>n\<le>length ?ord.
                 chunk_to_move_out_for_room_making nam s need dev = Return (take n ?ord)
               \<and> (?ord \<noteq> [] \<longrightarrow> 0 < n)
               \<and> need \<le> evicted_bytes nam s dev n
               \<and> (\<forall>k. 0 < k \<and> k < n \<longrightarrow> evicted_bytes nam s dev k < need))"
  proof (cases "evicted_bytes nam s dev (length ?ord) < need")
    case True
    then show ?thesis using le sel by simp
  next
    case False
    have "need \<le> evicted_bytes nam s dev n"
    proof (cases "n < length ?ord")
      case True then show ?thesis using n(5) by simp
    next
      case False
      then have "n = length ?ord" using n(1) by simp
      then show ?thesis using \<open>\<not> evicted_bytes nam s dev (length ?ord) < need\<close> by simp
    qed
    then show ?thesis using False n(1) n(3) n(4) sel by auto
  qed
  show ?thesis using set_eviction_order sorted_eviction_order [OF d] third by blast
qed

theorem victim_selection_witness:
  "distinct (map fst (id_to_chunk_map demo_state))
   \<and> list_all (\<lambda>(i, c). 0 \<le> get_payload_space c) (candidates demo_state (Device CUDA (Some 0)))
   \<and> (set (eviction_order demo_next_mom demo_state (Device CUDA (Some 0)))
         = fst ` set (candidates demo_state (Device CUDA (Some 0)))
       \<and> sorted_wrt (\<lambda>i j. mom_of demo_next_mom demo_state (Device CUDA (Some 0)) j
                               < mom_of demo_next_mom demo_state (Device CUDA (Some 0)) i
                          \<or> (mom_of demo_next_mom demo_state (Device CUDA (Some 0)) i
                               = mom_of demo_next_mom demo_state (Device CUDA (Some 0)) j \<and> i < j))
           (eviction_order demo_next_mom demo_state (Device CUDA (Some 0)))
       \<and> (if evicted_bytes demo_next_mom demo_state (Device CUDA (Some 0))
                (length (eviction_order demo_next_mom demo_state (Device CUDA (Some 0)))) < 45
          then chunk_to_move_out_for_room_making demo_next_mom demo_state 45 (Device CUDA (Some 0))
                 = Raise RuntimeError
          else \<exists>n\<le>length (eviction_order demo_next_mom demo_state (Device CUDA (Some 0))).
                 chunk_to_move_out_for_room_making demo_next_mom demo_state 45 (Device CUDA (Some 0))
                   = Return (take n (eviction_order demo_next_mom demo_state (Device CUDA (Some 0))))
               \<and> (eviction_order demo_next_mom demo_state (Device CUDA (Some 0)) \<noteq> [] \<longrightarrow> 0 < n)
               \<and> 45 \<le> evicted_bytes demo_next_mom demo_state (Device CUDA (Some 0)) n
               \<and> (\<forall>k. 0 < k \<and> k < n \<longrightarrow>
                     evicted_bytes demo_next_mom demo_state (Device CUDA (Some 0)) k < 45)))
   \<and> eviction_order demo_next_mom demo_state (Device CUDA (Some 0)) = [2, 1, 3]
   \<and> chunk_to_move_out_for_room_making demo_next_mom demo_state 45 (Device CUDA (Some 0))
        = Return [2, 1]
   \<and> chunk_to_move_out_for_room_making demo_next_mom demo_state 91 (Device CUDA (Some 0))
        = Raise RuntimeError"
proof -
  have h1: "distinct (map fst (id_to_chunk_map demo_state))" by code_simp
  have h2: "list_all (\<lambda>(i, c). 0 \<le> get_payload_space c)
              (candidates demo_state (Device CUDA (Some 0)))" by code_simp
  have e1: "eviction_order demo_next_mom demo_state (Device CUDA (Some 0)) = [2, 1, 3]"
    by code_simp
  have e2: "chunk_to_move_out_for_room_making demo_next_mom demo_state 45 (Device CUDA (Some 0))
        = Return [2, 1]" by code_simp
  have e3: "chunk_to_move_out_for_room_making demo_next_mom demo_state 91 (Device CUDA (Some 0))
        = Raise RuntimeError" by code_simp
  note t = victim_selection [OF h1 h2, of demo_next_mom 45]
  show ?thesis by (rule conjI [OF h1 conjI [OF h2 conjI [OF t conjI [OF e1 conjI [OF e2 e3]]]]])
qed

text \<open>
  C3. \<^verbatim>\<open>prepare_device\<close>: when the tier's available chunk memory is below the need, the
  call raises and leaves the state as it was; otherwise, when the tier's free chunk
  memory covers the need, it returns and leaves the state as it was. In neither case is
  the selection consulted or a chunk moved.
\<close>

theorem prepare_device_guards:
  "(available_chunk_mem (mgr s) (dev_type target) < need \<longrightarrow>
      prepare_device nam s target need = (Raise RuntimeError, s))
   \<and> (need \<le> available_chunk_mem (mgr s) (dev_type target)
        \<and> need \<le> free_chunk_mem (mgr s) (dev_type target) \<longrightarrow>
      prepare_device nam s target need = (Return (), s))"
  by (simp add: prepare_device_def Let_def)

theorem prepare_device_guards_witness:
  "available_chunk_mem (mgr demo_state) (dev_type (Device CUDA (Some 0))) < 300
   \<and> prepare_device demo_next_mom demo_state (Device CUDA (Some 0)) 300
       = (Raise RuntimeError, demo_state)
   \<and> 40 \<le> available_chunk_mem (mgr demo_state) (dev_type (Device CUDA (Some 0)))
   \<and> 40 \<le> free_chunk_mem (mgr demo_state) (dev_type (Device CUDA (Some 0)))
   \<and> prepare_device demo_next_mom demo_state (Device CUDA (Some 0)) 40
       = (Return (), demo_state)"
proof -
  have h1: "available_chunk_mem (mgr demo_state) (dev_type (Device CUDA (Some 0))) < 300"
    by code_simp
  have h2: "40 \<le> available_chunk_mem (mgr demo_state) (dev_type (Device CUDA (Some 0)))"
    by code_simp
  have h3: "40 \<le> free_chunk_mem (mgr demo_state) (dev_type (Device CUDA (Some 0)))"
    by code_simp
  from prepare_device_guards [of demo_state "Device CUDA (Some 0)" 300 demo_next_mom] h1
  have r1: "prepare_device demo_next_mom demo_state (Device CUDA (Some 0)) 300
       = (Raise RuntimeError, demo_state)" by blast
  from prepare_device_guards [of demo_state "Device CUDA (Some 0)" 40 demo_next_mom] h2 h3
  have r2: "prepare_device demo_next_mom demo_state (Device CUDA (Some 0)) 40
       = (Return (), demo_state)" by blast
  show ?thesis using h1 h2 h3 r1 r2 by blast
qed

subsection \<open>Eviction leaves chunks in use alone; admission\<close>

lemma selection_prefix:
  assumes "chunk_to_move_out_for_room_making nam s need dev = Return ids"
  shows "\<exists>n. ids = take n (eviction_order nam s dev)"
proof -
  let ?m = "id_to_chunk_map s"
  let ?q = "fill_queue nam dev ?m []"
  have q: "?q = map (\<lambda>(i, c). (- nam c dev, i)) (candidates s dev)"
    by (simp add: fill_queue_eq candidates_def)
  have sub: "snd ` set ?q \<subseteq> fst ` set ?m"
    by (force simp: q candidates_def)
  from drain_char [OF sub, of need 0 "[]"]
  obtain n b where "drain ?m need ?q 0 [] = Return (b, take n (eviction_order nam s dev))"
    by (auto simp: q eviction_order_def)
  then show ?thesis using assms
    by (auto simp: chunk_to_move_out_for_room_making_def split: if_splits)
qed

lemma selection_movable:
  assumes d: "distinct (map fst (id_to_chunk_map s))"
      and sel: "chunk_to_move_out_for_room_making nam s need dev = Return ids"
      and i: "i \<in> set ids"
  shows "\<exists>c. map_of (id_to_chunk_map s) i = Some c \<and> movable dev c"
proof -
  from selection_prefix [OF sel] obtain n where "ids = take n (eviction_order nam s dev)" ..
  then have "i \<in> set (eviction_order nam s dev)" using i by (auto dest: in_set_takeD)
  then obtain c where c: "(i, c) \<in> set (candidates s dev)"
    by (auto simp: set_eviction_order)
  then have "movable dev c" by (simp add: candidates_def)
  then show ?thesis using candidates_lookup [OF d c] by simp
qed

lemma movable_not_in_use: "movable dev c \<Longrightarrow> get_state c \<noteq> COMPUTE \<and> \<not> is_pin c"
  by (auto simp: movable_def split: option.splits)

text \<open>
  C2. A successful victim selection returns only ids of chunks that are neither in
  COMPUTE state nor pinned. Consequently \<^verbatim>\<open>prepare_device\<close>, whatever its outcome, leaves
  every chunk that is in COMPUTE state or pinned exactly as it was, so on its tier.
\<close>

theorem victims_exclude_in_use:
  assumes d: "distinct (map fst (id_to_chunk_map s))"
  shows "(chunk_to_move_out_for_room_making nam s need dev = Return ids \<longrightarrow>
            list_all (\<lambda>i. \<exists>c. map_of (id_to_chunk_map s) i = Some c
                              \<and> get_state c \<noteq> COMPUTE \<and> \<not> is_pin c) ids)
       \<and> (map_of (id_to_chunk_map s) j = Some c
            \<and> (get_state c = COMPUTE \<or> is_pin c)
            \<and> prepare_device nam s dev need' = (r, s') \<longrightarrow>
          map_of (id_to_chunk_map s') j = Some c)"
proof (intro conjI impI)
  assume sel: "chunk_to_move_out_for_room_making nam s need dev = Return ids"
  show "list_all (\<lambda>i. \<exists>c. map_of (id_to_chunk_map s) i = Some c
                              \<and> get_state c \<noteq> COMPUTE \<and> \<not> is_pin c) ids"
    unfolding list_all_iff
  proof
    fix i assume "i \<in> set ids"
    from selection_movable [OF d sel this] movable_not_in_use
    show "\<exists>c. map_of (id_to_chunk_map s) i = Some c \<and> get_state c \<noteq> COMPUTE \<and> \<not> is_pin c"
      by blast
  qed
next
  assume a: "map_of (id_to_chunk_map s) j = Some c
            \<and> (get_state c = COMPUTE \<or> is_pin c)
            \<and> prepare_device nam s dev need' = (r, s')"
  let ?extra = "need' - free_chunk_mem (mgr s) (dev_type dev)"
  show "map_of (id_to_chunk_map s') j = Some c"
  proof (cases "available_chunk_mem (mgr s) (dev_type dev) < need' \<or> ?extra \<le> 0")
    case True
    then have "s' = s" using a by (auto simp: prepare_device_def Let_def split: if_splits)
    then show ?thesis using a by simp
  next
    case False
    show ?thesis
    proof (cases "chunk_to_move_out_for_room_making nam s ?extra dev")
      case (Raise e)
      then have "s' = s" using a False by (auto simp: prepare_device_def Let_def)
      then show ?thesis using a by simp
    next
      case (Return ids)
      have notin: "j \<notin> set ids"
      proof
        assume "j \<in> set ids"
        from selection_movable [OF d Return this] a movable_not_in_use show False by force
      qed
      show ?thesis
      proof (cases "other_device s dev")
        case (Raise e)
        then have "s' = s" using a False Return by (auto simp: prepare_device_def Let_def)
        then show ?thesis using a by simp
      next
        case nd: (Return new_device)
        have mv: "move_all s ids new_device = (r, s')"
          using a False Return nd by (auto simp: prepare_device_def Let_def)
        from move_all_other [OF mv notin] a show ?thesis by simp
      qed
    qed
  qed
qed

theorem victims_exclude_in_use_witness:
  "distinct (map fst (id_to_chunk_map demo_state))
   \<and> chunk_to_move_out_for_room_making demo_next_mom demo_state 45 (Device CUDA (Some 0))
        = Return [2, 1]
   \<and> list_all (\<lambda>i. \<exists>c. map_of (id_to_chunk_map demo_state) i = Some c
                        \<and> get_state c \<noteq> COMPUTE \<and> \<not> is_pin c) [2, 1]
   \<and> map_of (id_to_chunk_map demo_state) 4
        = Some (demo_chunk 4 5 (Some (Device CUDA (Some 0))) [TENSOR_COMPUTE] False [9])
   \<and> get_state (demo_chunk 4 5 (Some (Device CUDA (Some 0))) [TENSOR_COMPUTE] False [9]) = COMPUTE
   \<and> map_of (id_to_chunk_map demo_state) 7
        = Some (demo_chunk 7 25 (Some (Device CUDA (Some 0))) [TENSOR_HOLD] True [9])
   \<and> is_pin (demo_chunk 7 25 (Some (Device CUDA (Some 0))) [TENSOR_HOLD] True [9])
   \<and> fst (prepare_device demo_next_mom demo_state (Device CUDA (Some 0)) 95) = Return ()
   \<and> map_of (id_to_chunk_map
         (snd (prepare_device demo_next_mom demo_state (Device CUDA (Some 0)) 95))) 4
        = Some (demo_chunk 4 5 (Some (Device CUDA (Some 0))) [TENSOR_COMPUTE] False [9])
   \<and> map_of (id_to_chunk_map
         (snd (prepare_device demo_next_mom demo_state (Device CUDA (Some 0)) 95))) 7
        = Some (demo_chunk 7 25 (Some (Device CUDA (Some 0))) [TENSOR_HOLD] True [9])"
proof -
  let ?dev = "Device CUDA (Some 0)"
  let ?c4 = "demo_chunk 4 5 (Some ?dev) [TENSOR_COMPUTE] False [9]"
  let ?c7 = "demo_chunk 7 25 (Some ?dev) [TENSOR_HOLD] True [9]"
  let ?p = "prepare_device demo_next_mom demo_state ?dev 95"
  have h1: "distinct (map fst (id_to_chunk_map demo_state))" by code_simp
  have h2: "chunk_to_move_out_for_room_making demo_next_mom demo_state 45 ?dev = Return [2, 1]"
    by code_simp
  have h3: "map_of (id_to_chunk_map demo_state) 4 = Some ?c4" by code_simp
  have h4: "get_state ?c4 = COMPUTE" by code_simp
  have h5: "map_of (id_to_chunk_map demo_state) 7 = Some ?c7" by code_simp
  have h6: "is_pin ?c7" by code_simp
  have h7: "fst ?p = Return ()" by code_simp
  have p: "?p = (fst ?p, snd ?p)" by simp
  from victims_exclude_in_use [OF h1, of demo_next_mom 45 ?dev "[2, 1]"] h2
  have r1: "list_all (\<lambda>i. \<exists>c. map_of (id_to_chunk_map demo_state) i = Some c
                        \<and> get_state c \<noteq> COMPUTE \<and> \<not> is_pin c) [2, 1]" by blast
  from victims_exclude_in_use [OF h1, of demo_next_mom _ ?dev _ 4 ?c4 95 "fst ?p" "snd ?p"] h3 h4 p
  have r2: "map_of (id_to_chunk_map (snd ?p)) 4 = Some ?c4" by blast
  from victims_exclude_in_use [OF h1, of demo_next_mom _ ?dev _ 7 ?c7 95 "fst ?p" "snd ?p"] h5 h6 p
  have r3: "map_of (id_to_chunk_map (snd ?p)) 7 = Some ?c7" by blast
  show ?thesis
    by (rule conjI [OF h1 conjI [OF h2 conjI [OF r1 conjI [OF h3 conjI [OF h4
          conjI [OF h5 conjI [OF h6 conjI [OF h7 conjI [OF r2 r3]]]]]]]]])
qed

lemma get_state_released: "get_state c = RELEASED \<longleftrightarrow> cc_payload_device c = None"
  by (simp add: get_state_def)

lemma append_moment_payload [simp]:
  "cc_payload_device (append_moment mom dev c) = cc_payload_device c"
  by (simp add: append_moment_def)

lemma device_of_with_chunk_other:
  "j \<noteq> i \<Longrightarrow> device_of (with_chunk i f s) j = device_of s j"
  by (simp add: device_of_def map_of_with_chunk_other)

lemma access_chunk_resident:
  assumes c: "map_of (id_to_chunk_map s) i = Some c"
      and dv: "cc_payload_device c = Some d" "dev_type d = dev_type dev"
  shows "access_chunk nam s i dev =
           (Return (),
            if is_warmup_training (mgr s)
            then s\<lparr>id_to_chunk_map :=
                     set_chunk i (append_moment (get_cur_mom (mgr s)) dev c) (id_to_chunk_map s)\<rparr>
            else s)"
  using c dv by (simp add: access_chunk_def Let_def get_state_released get_device_def)

lemma access_chunk_post:
  assumes "access_chunk nam s i dev = (Return (), s1)"
  shows "\<exists>c d. map_of (id_to_chunk_map s1) i = Some c \<and> cc_payload_device c = Some d
               \<and> dev_type d = dev_type dev"
proof -
  from assms obtain chunk0 where c0: "map_of (id_to_chunk_map s) i = Some chunk0"
    by (auto simp: access_chunk_def split: option.splits)
  define chunk where "chunk = (if is_warmup_training (mgr s)
                  then append_moment (get_cur_mom (mgr s)) dev chunk0 else chunk0)"
  define s1' where "s1' = (if is_warmup_training (mgr s)
                  then s\<lparr>id_to_chunk_map := set_chunk i chunk (id_to_chunk_map s)\<rparr> else s)"
  have m1: "map_of (id_to_chunk_map s1') i = Some chunk"
    using c0 by (simp add: s1'_def chunk_def map_of_set_chunk)
  have acc: "access_chunk nam s i dev =
     (if get_state chunk = RELEASED then
                (case prepare_device nam s1' dev (get_chunk_space chunk) of
                   (Raise e, s2) \<Rightarrow> (Raise e, s2)
                 | (Return _, s2) \<Rightarrow>
                     (Return (), with_chunk i (allocate_payload dev) s2))
              else
                (case get_device chunk of
                   None \<Rightarrow> (Raise AttributeError, s1')
                 | Some d \<Rightarrow>
                     if dev_type d \<noteq> dev_type dev then
                       (case prepare_device nam s1' dev (get_chunk_space chunk) of
                          (Raise e, s2) \<Rightarrow> (Raise e, s2)
                        | (Return _, s2) \<Rightarrow>
                            (let s3 = with_chunk i (core_move dev) s2
                             in case Option.bind (map_of (id_to_chunk_map s3) i) get_device of
                                  None \<Rightarrow> (Raise AttributeError, s3)
                                | Some d' \<Rightarrow>
                                    if dev_type d' = dev_type dev
                                    then (Return (), s3)
                                    else (Raise AssertionError, s3)))
                     else (Return (), s1')))"
    unfolding access_chunk_def Let_def chunk_def s1'_def using c0 by simp
  show ?thesis
  proof (cases "get_state chunk = RELEASED")
    case True
    then obtain u s2 where p: "prepare_device nam s1' dev (get_chunk_space chunk) = (Return u, s2)"
      and s1: "s1 = with_chunk i (allocate_payload dev) s2"
      using assms acc by (auto split: prod.splits result.splits)
    have "map fst (id_to_chunk_map s2) = map fst (id_to_chunk_map s1')"
      using keys_prepare_device [OF p] .
    then have "i \<in> fst ` set (id_to_chunk_map s2)"
      using m1 by (metis list.set_map map_of_eq_None_iff option.distinct(1))
    then obtain c2 where "map_of (id_to_chunk_map s2) i = Some c2"
      by (cases "map_of (id_to_chunk_map s2) i") (auto simp: map_of_eq_None_iff)
    from map_of_with_chunk_same [OF this, of "allocate_payload dev"]
    show ?thesis by (auto simp: s1 allocate_payload_def)
  next
    case False
    then obtain d where d: "get_device chunk = Some d"
      using assms acc by (auto split: option.splits)
    show ?thesis
    proof (cases "dev_type d = dev_type dev")
      case True
      then have "s1 = s1'" using assms acc False d by simp
      then show ?thesis using m1 d True by (auto simp: get_device_def)
    next
      case ne: False
      then obtain u s2 where p: "prepare_device nam s1' dev (get_chunk_space chunk) = (Return u, s2)"
        and s1: "s1 = with_chunk i (core_move dev) s2"
        and b: "\<exists>d'. Option.bind (map_of (id_to_chunk_map s1) i) get_device = Some d'
                  \<and> dev_type d' = dev_type dev"
        using assms acc False d
        by (auto simp: Let_def split: prod.splits result.splits option.splits if_splits)
      from b show ?thesis by (auto simp: get_device_def split: Option.bind_splits)
    qed
  qed
qed

text \<open>
  C7. After a successful \<^verbatim>\<open>access_chunk\<close> the chunk's device has the requested device's
  type. A second call right after it returns without raising, changes neither the
  manager's accounting nor the device of any chunk, and touches no other chunk; outside
  the warm-up phase (where the access moment is recorded) the state is unchanged.
\<close>

theorem access_chunk_idempotent:
  assumes "access_chunk nam s i dev = (Return (), s1)"
  shows "(\<exists>d. device_of s1 i = Some d \<and> dev_type d = dev_type dev)
       \<and> (\<exists>s2. access_chunk nam s1 i dev = (Return (), s2)
             \<and> mgr s2 = mgr s1
             \<and> (\<forall>j. device_of s2 j = device_of s1 j)
             \<and> (\<forall>j. j \<noteq> i \<longrightarrow> map_of (id_to_chunk_map s2) j = map_of (id_to_chunk_map s1) j)
             \<and> (\<not> is_warmup_training (mgr s1) \<longrightarrow> s2 = s1))"
proof -
  from access_chunk_post [OF assms]
  obtain c d where c: "map_of (id_to_chunk_map s1) i = Some c"
    and d: "cc_payload_device c = Some d" "dev_type d = dev_type dev" by blast
  let ?s2 = "if is_warmup_training (mgr s1)
            then s1\<lparr>id_to_chunk_map :=
                     set_chunk i (append_moment (get_cur_mom (mgr s1)) dev c) (id_to_chunk_map s1)\<rparr>
            else s1"
  have a: "access_chunk nam s1 i dev = (Return (), ?s2)"
    by (rule access_chunk_resident [OF c d])
  have b: "device_of ?s2 j = device_of s1 j" for j
    using c d by (auto simp: device_of_def map_of_set_chunk get_device_def)
  have e: "j \<noteq> i \<Longrightarrow> map_of (id_to_chunk_map ?s2) j = map_of (id_to_chunk_map s1) j" for j
    by (simp add: map_of_set_chunk)
  have f: "mgr ?s2 = mgr s1" by simp
  have g: "\<not> is_warmup_training (mgr s1) \<longrightarrow> ?s2 = s1" by simp
  have first: "\<exists>d. device_of s1 i = Some d \<and> dev_type d = dev_type dev"
    using c d by (simp add: device_of_def get_device_def)
  show ?thesis using first a b e f g by blast
qed

theorem access_chunk_idempotent_witness:
  "access_chunk demo_next_mom demo_state 5 (Device CUDA (Some 0))
     = (Return (), snd (access_chunk demo_next_mom demo_state 5 (Device CUDA (Some 0))))
   \<and> device_of demo_state 5 = Some (Device CPU None)
   \<and> device_of demo_state 2 = Some (Device CUDA (Some 0))
   \<and> device_of (snd (access_chunk demo_next_mom demo_state 5 (Device CUDA (Some 0)))) 2
        = Some (Device CPU None)
   \<and> (\<exists>d. device_of (snd (access_chunk demo_next_mom demo_state 5 (Device CUDA (Some 0)))) 5
              = Some d \<and> dev_type d = dev_type (Device CUDA (Some 0)))
   \<and> (\<exists>s2. access_chunk demo_next_mom
               (snd (access_chunk demo_next_mom demo_state 5 (Device CUDA (Some 0))))
               5 (Device CUDA (Some 0)) = (Return (), s2)
          \<and> mgr s2 = mgr (snd (access_chunk demo_next_mom demo_state 5 (Device CUDA (Some 0))))
          \<and> (\<forall>j. device_of s2 j
                 = device_of (snd (access_chunk demo_next_mom demo_state 5 (Device CUDA (Some 0)))) j))"
proof -
  let ?a = "access_chunk demo_next_mom demo_state 5 (Device CUDA (Some 0))"
  have "fst ?a = Return ()" by code_simp
  then have h: "?a = (Return (), snd ?a)" by (metis prod.collapse)
  have e1: "device_of demo_state 5 = Some (Device CPU None)" by code_simp
  have e2: "device_of demo_state 2 = Some (Device CUDA (Some 0))" by code_simp
  have e3: "device_of (snd ?a) 2 = Some (Device CPU None)" by code_simp
  note t = access_chunk_idempotent [OF h]
  have r1: "\<exists>d. device_of (snd ?a) 5 = Some d \<and> dev_type d = dev_type (Device CUDA (Some 0))"
    using t by blast
  have r2: "\<exists>s2. access_chunk demo_next_mom (snd ?a) 5 (Device CUDA (Some 0)) = (Return (), s2)
          \<and> mgr s2 = mgr (snd ?a) \<and> (\<forall>j. device_of s2 j = device_of (snd ?a) j)"
    using t by blast
  show ?thesis
    by (rule conjI [OF h conjI [OF e1 conjI [OF e2 conjI [OF e3 conjI [OF r1 r2]]]]])
qed

lemma new_chunk_success:
  assumes "new_chunk s i cap es dummy ct ws = (Return ci, s')"
  shows "i \<notin> fst ` set (id_to_chunk_map s)"
    and "s' = s\<lparr>id_to_chunk_map := id_to_chunk_map s @
                       [(i, Chunk_init cap es i (local_rank s) dummy)],
                     chunk_type_to_id_list_map :=
                       (chunk_type_to_id_list_map s)
                         (ct := chunk_type_to_id_list_map s ct @ [i])\<rparr>"
  using assms by (auto simp: new_chunk_def Let_def split: if_splits)

text \<open>
  C9. When \<^verbatim>\<open>new_chunk\<close> returns, the new chunk is registered with no payload (its
  device is \<open>None\<close> and its state RELEASED), the manager's accounting is as before and
  no other chunk has changed. The first successful \<^verbatim>\<open>access_chunk\<close> of the new chunk
  materializes its payload on the requested device.
\<close>

theorem new_chunk_lazy:
  assumes "new_chunk s i cap es dummy ct ws = (Return ci, s')"
  shows "map_of (id_to_chunk_map s') i = Some (Chunk_init cap es i (local_rank s) dummy)
       \<and> get_state (Chunk_init cap es i (local_rank s) dummy) = RELEASED
       \<and> get_device (Chunk_init cap es i (local_rank s) dummy) = None
       \<and> mgr s' = mgr s
       \<and> (\<forall>j. j \<noteq> i \<longrightarrow> map_of (id_to_chunk_map s') j = map_of (id_to_chunk_map s) j)
       \<and> (access_chunk nam s' i dev = (Return (), s'') \<longrightarrow> device_of s'' i = Some dev)"
proof -
  note ns = new_chunk_success [OF assms]
  have look: "map_of (id_to_chunk_map s') i = Some (Chunk_init cap es i (local_rank s) dummy)"
  proof -
    have "map_of (id_to_chunk_map s) i = None" using ns(1) by (simp add: map_of_eq_None_iff)
    then show ?thesis using ns(2) by (simp add: map_add_def)
  qed
  have other: "j \<noteq> i \<Longrightarrow> map_of (id_to_chunk_map s') j = map_of (id_to_chunk_map s) j" for j
    using ns(2) by (simp add: map_add_def split: option.splits)
  have rel: "get_state (Chunk_init cap es i (local_rank s) dummy) = RELEASED"
            "get_device (Chunk_init cap es i (local_rank s) dummy) = None"
    by (simp_all add: get_state_def get_device_def Chunk_init_def)
  have touch: "device_of s'' i = Some dev" if acc: "access_chunk nam s' i dev = (Return (), s'')"
  proof -
    let ?c0 = "Chunk_init cap es i (local_rank s) dummy"
    define chunk where "chunk = (if is_warmup_training (mgr s')
                  then append_moment (get_cur_mom (mgr s')) dev ?c0 else ?c0)"
    define s1' where "s1' = (if is_warmup_training (mgr s')
                  then s'\<lparr>id_to_chunk_map := set_chunk i chunk (id_to_chunk_map s')\<rparr> else s')"
    have rl: "get_state chunk = RELEASED"
      by (simp add: chunk_def get_state_released Chunk_init_def)
    have m1: "map_of (id_to_chunk_map s1') i = Some chunk"
      using look by (simp add: s1'_def chunk_def map_of_set_chunk)
    have "access_chunk nam s' i dev =
        (case prepare_device nam s1' dev (get_chunk_space chunk) of
                   (Raise e, s2) \<Rightarrow> (Raise e, s2)
                 | (Return _, s2) \<Rightarrow>
                     (Return (), with_chunk i (allocate_payload dev) s2))"
      using look rl unfolding access_chunk_def Let_def chunk_def s1'_def by simp
    then obtain u s2 where p: "prepare_device nam s1' dev (get_chunk_space chunk) = (Return u, s2)"
      and s1: "s'' = with_chunk i (allocate_payload dev) s2"
      using acc by (auto split: prod.splits result.splits)
    have "map fst (id_to_chunk_map s2) = map fst (id_to_chunk_map s1')"
      using keys_prepare_device [OF p] .
    then have "i \<in> fst ` set (id_to_chunk_map s2)"
      using m1 by (metis list.set_map map_of_eq_None_iff option.distinct(1))
    then obtain c2 where "map_of (id_to_chunk_map s2) i = Some c2"
      by (cases "map_of (id_to_chunk_map s2) i") (auto simp: map_of_eq_None_iff)
    from map_of_with_chunk_same [OF this, of "allocate_payload dev"]
    show ?thesis by (auto simp: s1 allocate_payload_def device_of_def get_device_def)
  qed
  show ?thesis using look other rel touch ns(2) by simp
qed

theorem new_chunk_lazy_witness:
  "new_chunk demo_state 8 10 2 False PARAM_FP16 1
     = (Return \<lparr>comm_chunk_type = PARAM_FP16, group_id = 7, offset = 0\<rparr>,
        snd (new_chunk demo_state 8 10 2 False PARAM_FP16 1))
   \<and> map_of (id_to_chunk_map (snd (new_chunk demo_state 8 10 2 False PARAM_FP16 1))) 8
       = Some (Chunk_init 10 2 8 (local_rank demo_state) False)
   \<and> get_state (Chunk_init 10 2 8 (local_rank demo_state) False) = RELEASED
   \<and> get_device (Chunk_init 10 2 8 (local_rank demo_state) False) = None
   \<and> mgr (snd (new_chunk demo_state 8 10 2 False PARAM_FP16 1)) = mgr demo_state
   \<and> access_chunk demo_next_mom (snd (new_chunk demo_state 8 10 2 False PARAM_FP16 1)) 8
        (Device CUDA (Some 0))
       = (Return (),
          snd (access_chunk demo_next_mom (snd (new_chunk demo_state 8 10 2 False PARAM_FP16 1)) 8
                 (Device CUDA (Some 0))))
   \<and> device_of
        (snd (access_chunk demo_next_mom (snd (new_chunk demo_state 8 10 2 False PARAM_FP16 1)) 8
                 (Device CUDA (Some 0)))) 8
       = Some (Device CUDA (Some 0))"
proof -
  let ?n = "new_chunk demo_state 8 10 2 False PARAM_FP16 1"
  let ?a = "access_chunk demo_next_mom (snd ?n) 8 (Device CUDA (Some 0))"
  have "fst ?n = Return \<lparr>comm_chunk_type = PARAM_FP16, group_id = 7, offset = 0\<rparr>"
    by code_simp
  then have h: "?n = (Return \<lparr>comm_chunk_type = PARAM_FP16, group_id = 7, offset = 0\<rparr>, snd ?n)"
    by (metis prod.collapse)
  have "fst ?a = Return ()" by code_simp
  then have h2: "?a = (Return (), snd ?a)" by (metis prod.collapse)
  note t = new_chunk_lazy [OF h, of demo_next_mom "Device CUDA (Some 0)" "snd ?a"]
  have r1: "map_of (id_to_chunk_map (snd ?n)) 8 = Some (Chunk_init 10 2 8 (local_rank demo_state) False)"
    using t by blast
  have r2: "get_state (Chunk_init 10 2 8 (local_rank demo_state) False) = RELEASED"
    using t by blast
  have r3: "get_device (Chunk_init 10 2 8 (local_rank demo_state) False) = None"
    using t by blast
  have r4: "mgr (snd ?n) = mgr demo_state" using t by blast
  have r5: "device_of (snd ?a) 8 = Some (Device CUDA (Some 0))" using t h2 by blast
  show ?thesis
    by (rule conjI [OF h conjI [OF r1 conjI [OF r2 conjI [OF r3 conjI [OF r4 conjI [OF h2 r5]]]]]])
qed

section \<open>Properties of the chunk\<close>

lemma status_scan_char:
  "status_scan h f infos =
     (if \<exists>i\<in>set infos. status h i = TENSOR_COMPUTE then CHUNK_COMPUTE
      else if \<not> f \<or> (\<exists>i\<in>set infos. status h i \<noteq> TENSOR_FREE) then CHUNK_HOLD
      else CHUNK_FREE)"
  by (induction infos arbitrary: f) auto

lemma set_generate_in_sorted_order:
  "set (generate_in_sorted_order d) = set (map snd d)"
  by (simp add: generate_in_sorted_order_def)

text \<open>
  C5. \<^verbatim>\<open>get_status\<close> is COMPUTE exactly when a hosted descriptor has status COMPUTE;
  it is HOLD exactly when none has status COMPUTE and one has a status other than
  FREE; it is FREE exactly when every hosted descriptor has status FREE; a chunk with
  no descriptor is FREE.
\<close>

theorem get_status_aggregates:
  "(get_status h c = CHUNK_COMPUTE \<longleftrightarrow> (\<exists>i\<in>set (hosted c). status h i = TENSOR_COMPUTE))
   \<and> (get_status h c = CHUNK_HOLD \<longleftrightarrow>
        \<not> (\<exists>i\<in>set (hosted c). status h i = TENSOR_COMPUTE)
        \<and> (\<exists>i\<in>set (hosted c). status h i \<noteq> TENSOR_FREE))
   \<and> (get_status h c = CHUNK_FREE \<longleftrightarrow> \<not> (\<exists>i\<in>set (hosted c). status h i \<noteq> TENSOR_FREE))
   \<and> get_status h (c\<lparr>tensor_info_list := []\<rparr>) = CHUNK_FREE"
proof -
  have e: "get_status h c =
      (if \<exists>i\<in>set (hosted c). status h i = TENSOR_COMPUTE then CHUNK_COMPUTE
       else if \<exists>i\<in>set (hosted c). status h i \<noteq> TENSOR_FREE then CHUNK_HOLD
       else CHUNK_FREE)"
  proof (cases "tensor_info_list c = []")
    case True
    then show ?thesis by (simp add: get_status_def get_len_def hosted_def)
  next
    case False
    then show ?thesis
      by (simp add: get_status_def get_len_def hosted_def status_scan_char
            set_generate_in_sorted_order)
  qed
  have z: "get_status h (c\<lparr>tensor_info_list := []\<rparr>) = CHUNK_FREE"
    by (simp add: get_status_def get_len_def)
  have c: "status h i = TENSOR_COMPUTE \<Longrightarrow> status h i \<noteq> TENSOR_FREE" for i by simp
  show ?thesis unfolding e using z c by auto
qed

lemma occupied_scan:
  "occupied h c =
     map (\<lambda>info. (start info, numel h info))
       (filter (resident h) (generate_in_sorted_order (tensor_info_list c)))"
  by (simp add: occupied_def generate_in_sorted_order_def hosted_def)

lemma occupied_sorted: "sorted (map fst (occupied h c))"
proof -
  have "sorted (map start (sort_key start (hosted c)))" by (rule sorted_sort_key)
  then have "sorted (map start (filter (resident h) (sort_key start (hosted c))))"
    by (rule sorted_filter)
  then show ?thesis by (simp add: occupied_def o_def)
qed

lemma occupied_mset:
  "mset (occupied h c)
     = mset (map (\<lambda>info. (start info, numel h info)) (filter (resident h) (hosted c)))"
  by (simp add: occupied_def)

lemma gaps_from_zip:
  "gaps_from e rs cap =
     map (\<lambda>(e, s). (e, s - e)) (zip (e # map (\<lambda>(s, n). s + n) rs) (map fst rs @ [cap]))"
  by (induction rs arbitrary: e) auto

lemma gaps_scan: "gaps rs cap = gaps_from 0 rs cap"
  by (simp add: gaps_def gaps_from_zip)

lemma find_gap_gaps:
  "(case find_gap h n pe infos of
      Inl off \<Rightarrow> Some off
    | Inr pe' \<Rightarrow> if n \<le> cap - pe' then Some pe' else None)
   = first_fit n (gaps_from pe (map (\<lambda>info. (start info, numel h info))
                            (filter (resident h) infos)) cap)"
  by (induction infos arbitrary: pe) (auto simp: first_fit_def resident_def)

lemma first_fit_bounds:
  assumes "list_all (\<lambda>(s, m). 0 \<le> s \<and> s + m \<le> cap \<and> 0 \<le> m) rs"
      and "0 \<le> pe" "pe \<le> cap" "0 \<le> n"
      and "first_fit n (gaps_from pe rs cap) = Some off"
  shows "0 \<le> off \<and> off + n \<le> cap"
  using assms
proof (induction rs arbitrary: pe)
  case Nil
  then show ?case by (auto simp: first_fit_def split: if_splits)
next
  case (Cons r rs)
  obtain s m where r: "r = (s, m)" by (cases r)
  show ?case
  proof (cases "n \<le> s - pe")
    case True
    then have "off = pe" using Cons.prems r by (simp add: first_fit_def)
    then show ?thesis using True Cons.prems r by auto
  next
    case False
    then have "first_fit n (gaps_from (s + m) rs cap) = Some off"
      using Cons.prems r by (simp add: first_fit_def)
    moreover have "list_all (\<lambda>(s, m). 0 \<le> s \<and> s + m \<le> cap \<and> 0 \<le> m) rs"
      "0 \<le> s + m" "s + m \<le> cap"
      using Cons.prems r by auto
    ultimately show ?thesis using Cons.IH Cons.prems(4) by blast
  qed
qed

lemma numel_nonneg: "0 \<le> numel h info"
  by (simp add: numel_def shape_numel_def)

lemma zero_range_read:
  assumes "0 \<le> off" "0 \<le> n" "off + n \<le> int (length xs)"
  shows "take (nat n) (drop (nat off) (zero_range off n xs)) = replicate (nat n) 0"
    and "length (zero_range off n xs) = length xs"
    and "take (nat off) (zero_range off n xs) = take (nat off) xs"
    and "drop (nat (off + n)) (zero_range off n xs) = drop (nat (off + n)) xs"
proof -
  have l: "nat off \<le> length xs" "nat off + nat n \<le> length xs" "nat (off + n) = nat off + nat n"
    using assms by (auto simp: nat_add_distrib)
  show "take (nat n) (drop (nat off) (zero_range off n xs)) = replicate (nat n) 0"
    using l by (simp add: zero_range_def)
  show "length (zero_range off n xs) = length xs"
    using l by (simp add: zero_range_def)
  show "take (nat off) (zero_range off n xs) = take (nat off) xs"
    using l by (simp add: zero_range_def)
  show "drop (nat (off + n)) (zero_range off n xs) = drop (nat (off + n)) xs"
    using l by (simp add: zero_range_def)
qed

lemma narrow_in_range:
  assumes "0 \<le> off" "0 \<le> n" "off + n \<le> int (length (elements t))"
  shows "narrow t off n =
           Return \<lparr>view_storage = storage t, view_offset = off, view_numel = n,
                   view_shape = [nat n]\<rparr>"
  using assms by (simp add: narrow_def wrap_start_def)

lemma first_fit_in_range:
  assumes "in_range h c" "0 \<le> n"
      and "first_fit n (gaps_from 0 (occupied h c) (capacity c)) = Some off"
  shows "0 \<le> off" "off + n \<le> int (length (elements (payload c)))"
proof -
  have len: "int (length (elements (payload c))) = capacity c"
    using assms(1) by (simp add: in_range_def)
  have cap0: "0 \<le> capacity c" using len by linarith
  have rs: "list_all (\<lambda>(s, m). 0 \<le> s \<and> s + m \<le> capacity c \<and> 0 \<le> m) (occupied h c)"
    using assms(1) by (auto simp: in_range_def list_all_iff occupied_def numel_nonneg)
  from first_fit_bounds [OF rs _ cap0 assms(2) assms(3)]
  show "0 \<le> off" "off + n \<le> int (length (elements (payload c)))" using len by auto
qed

lemma try_allocate_char:
  assumes "in_range (params w) c"
  shows "case first_fit (shape_numel (ps_shape (params w p)))
                (gaps_from 0 (occupied (params w) c) (capacity c)) of
           None \<Rightarrow> try_allocate w c p a now = (Return None, c, w)
         | Some off \<Rightarrow>
             (\<exists>dest c'.
                try_allocate w c p a now = (Return (Some dest), c', w)
              \<and> dest = \<lparr>view_storage = storage (payload c), view_offset = off,
                         view_numel = shape_numel (ps_shape (params w p)),
                         view_shape = [nat (shape_numel (ps_shape (params w p)))]\<rparr>
              \<and> c' = c\<lparr>payload := (payload c)
                          \<lparr>elements := zero_range off (shape_numel (ps_shape (params w p)))
                                          (elements (payload c))\<rparr>,
                        tensor_info_list :=
                          TensorInfoList_add (params w)
                            \<lparr>start = off, param = p, access_type = a\<rparr> (tensor_info_list c),
                        timestamp := now\<rparr>
              \<and> read_view (payload c') dest
                  = replicate (nat (shape_numel (ps_shape (params w p)))) 0
              \<and> take (nat off) (elements (payload c')) = take (nat off) (elements (payload c))
              \<and> drop (nat (off + shape_numel (ps_shape (params w p)))) (elements (payload c'))
                  = drop (nat (off + shape_numel (ps_shape (params w p)))) (elements (payload c)))"
proof -
  let ?n = "shape_numel (ps_shape (params w p))"
  let ?h = "params w"
  let ?infos = "generate_in_sorted_order (tensor_info_list c)"
  have n0: "0 \<le> ?n" by (simp add: shape_numel_def)
  have len: "int (length (elements (payload c))) = capacity c"
    using assms by (simp add: in_range_def)
  have cap0: "0 \<le> capacity c" using len by linarith
  have rs: "list_all (\<lambda>(s, m). 0 \<le> s \<and> s + m \<le> capacity c \<and> 0 \<le> m) (occupied ?h c)"
    using assms by (auto simp: in_range_def list_all_iff occupied_def numel_nonneg)
  have ff: "(case find_gap ?h ?n 0 ?infos of
      Inl off \<Rightarrow> Some off
    | Inr pe' \<Rightarrow> if ?n \<le> capacity c - pe' then Some pe' else None)
   = first_fit ?n (gaps_from 0 (occupied ?h c) (capacity c))"
    unfolding occupied_scan by (rule find_gap_gaps)
  show ?thesis
  proof (cases "first_fit ?n (gaps_from 0 (occupied ?h c) (capacity c))")
    case None
    then have "try_allocate w c p a now = (Return None, c, w)"
      using ff by (auto simp: try_allocate_def Let_def split: sum.splits if_splits)
    then show ?thesis using None by simp
  next
    case (Some off)
    from first_fit_bounds [OF rs _ cap0 n0 Some]
    have b: "0 \<le> off" "off + ?n \<le> capacity c" by auto
    have zr: "off + ?n \<le> int (length (elements (payload c)))" using b len by simp
    have nr: "narrow (payload c) off ?n =
        Return \<lparr>view_storage = storage (payload c), view_offset = off, view_numel = ?n,
                view_shape = [nat ?n]\<rparr>"
      by (rule narrow_in_range [OF b(1) n0 zr])
    have al: "try_allocate w c p a now =
        (case allocate w c off ?n p a now of
                (Raise e, c', w') \<Rightarrow> (Raise e, c', w')
              | (Return dest, c', w') \<Rightarrow> (Return (Some dest), c', w'))"
      using ff Some by (auto simp: try_allocate_def Let_def split: sum.splits if_splits)
    show ?thesis
      using Some zero_range_read [OF b(1) n0 zr]
      by (simp add: al allocate_def nr read_view_def)
  qed
qed

lemma map_of_replace:
  "map_of (map (\<lambda>(k', v'). if k' = k then (k', v) else (k', v')) d) x
     = (if x = k \<and> k \<in> fst ` set d then Some v else map_of d x)"
proof (induction d)
  case Nil
  show ?case by simp
next
  case (Cons e d)
  obtain a b where e: "e = (a, b)" by (cases e)
  show ?case
  proof (cases "a = k")
    case True
    then show ?thesis using Cons.IH by (cases "x = k") (simp_all add: e)
  next
    case False
    then show ?thesis using Cons.IH by (cases "x = k") (simp_all add: e)
  qed
qed

lemma map_of_dict_set: "map_of (dict_set k v d) = (map_of d)(k \<mapsto> v)"
proof (cases "k \<in> fst ` set d")
  case True
  show ?thesis
  proof
    fix x
    show "map_of (dict_set k v d) x = ((map_of d)(k \<mapsto> v)) x"
      using True by (simp add: dict_set_def map_of_replace)
  qed
next
  case False
  then have n: "map_of d k = None" by (simp add: map_of_eq_None_iff)
  show ?thesis
  proof
    fix x
    show "map_of (dict_set k v d) x = ((map_of d)(k \<mapsto> v)) x"
      using False n by (cases "x = k") (simp_all add: dict_set_def map_add_def split: option.splits)
  qed
qed

lemma dict_set_keys:
  "map fst (dict_set k v d) = (if k \<in> set (map fst d) then map fst d else map fst d @ [k])"
proof -
  have "map fst (map (\<lambda>(k', v'). if k' = k then (k', v) else (k', v')) d) = map fst d"
    by (induction d) auto
  then show ?thesis by (simp add: dict_set_def)
qed

text \<open>
  C6. The ranges of the resident descriptors (those whose status is not FREE), taken in
  ascending start order, leave gaps: from 0 or the end of a range to the start of the
  next range, and from the end of the last range to the capacity. \<^verbatim>\<open>try_allocate\<close> is
  first fit over these gaps. When no gap holds the request it returns \<open>None\<close> and changes
  nothing. Otherwise it returns the view of the requested element count at the start
  of the first gap that holds it; the payload is zero on exactly that range and as
  before elsewhere; the item dict maps the new descriptor's id to the new descriptor
  (start of the gap, the parameter, the access type), an id that was a key keeps its
  place, a new one goes to the end, and every other key keeps its descriptor; the
  timestamp is the current time and nothing else of the chunk has changed.
\<close>

theorem try_allocate_first_fit:
  assumes "in_range (params w) c"
  shows "sorted (map fst (occupied (params w) c))
       \<and> mset (occupied (params w) c)
           = mset (map (\<lambda>info. (start info, numel (params w) info))
                     (filter (resident (params w)) (hosted c)))
       \<and> (case first_fit (shape_numel (ps_shape (params w p)))
                  (gaps (occupied (params w) c) (capacity c)) of
             None \<Rightarrow> try_allocate w c p a now = (Return None, c, w)
           | Some off \<Rightarrow>
               (\<exists>dest c'.
                  try_allocate w c p a now = (Return (Some dest), c', w)
                \<and> dest = \<lparr>view_storage = storage (payload c), view_offset = off,
                           view_numel = shape_numel (ps_shape (params w p)),
                           view_shape = [nat (shape_numel (ps_shape (params w p)))]\<rparr>
                \<and> payload c' =
                    (payload c)
                      \<lparr>elements :=
                         take (nat off) (elements (payload c))
                         @ replicate (nat (shape_numel (ps_shape (params w p)))) 0
                         @ drop (nat (off + shape_numel (ps_shape (params w p))))
                             (elements (payload c))\<rparr>
                \<and> length (elements (payload c')) = length (elements (payload c))
                \<and> read_view (payload c') dest
                    = replicate (nat (shape_numel (ps_shape (params w p)))) 0
                \<and> map_of (tensor_info_list c')
                    = (map_of (tensor_info_list c))
                        (tensor_id (params w) \<lparr>start = off, param = p, access_type = a\<rparr>
                           \<mapsto> \<lparr>start = off, param = p, access_type = a\<rparr>)
                \<and> map fst (tensor_info_list c')
                    = (if tensor_id (params w) \<lparr>start = off, param = p, access_type = a\<rparr>
                            \<in> set (map fst (tensor_info_list c))
                       then map fst (tensor_info_list c)
                       else map fst (tensor_info_list c)
                            @ [tensor_id (params w) \<lparr>start = off, param = p, access_type = a\<rparr>])
                \<and> timestamp c' = now
                \<and> chunk_id c' = chunk_id c \<and> capacity c' = capacity c
                \<and> data_type_size c' = data_type_size c \<and> device c' = device c))"
proof (intro conjI)
  show "sorted (map fst (occupied (params w) c))" by (rule occupied_sorted)
  show "mset (occupied (params w) c)
           = mset (map (\<lambda>info. (start info, numel (params w) info))
                     (filter (resident (params w)) (hosted c)))"
    by (rule occupied_mset)
  let ?n = "shape_numel (ps_shape (params w p))"
  note ch = try_allocate_char [OF assms, of p a now, folded gaps_scan]
  show "case first_fit ?n (gaps (occupied (params w) c) (capacity c)) of
             None \<Rightarrow> try_allocate w c p a now = (Return None, c, w)
           | Some off \<Rightarrow>
               (\<exists>dest c'.
                  try_allocate w c p a now = (Return (Some dest), c', w)
                \<and> dest = \<lparr>view_storage = storage (payload c), view_offset = off,
                           view_numel = ?n, view_shape = [nat ?n]\<rparr>
                \<and> payload c' =
                    (payload c)
                      \<lparr>elements :=
                         take (nat off) (elements (payload c)) @ replicate (nat ?n) 0
                         @ drop (nat (off + ?n)) (elements (payload c))\<rparr>
                \<and> length (elements (payload c')) = length (elements (payload c))
                \<and> read_view (payload c') dest = replicate (nat ?n) 0
                \<and> map_of (tensor_info_list c')
                    = (map_of (tensor_info_list c))
                        (tensor_id (params w) \<lparr>start = off, param = p, access_type = a\<rparr>
                           \<mapsto> \<lparr>start = off, param = p, access_type = a\<rparr>)
                \<and> map fst (tensor_info_list c')
                    = (if tensor_id (params w) \<lparr>start = off, param = p, access_type = a\<rparr>
                            \<in> set (map fst (tensor_info_list c))
                       then map fst (tensor_info_list c)
                       else map fst (tensor_info_list c)
                            @ [tensor_id (params w) \<lparr>start = off, param = p, access_type = a\<rparr>])
                \<and> timestamp c' = now
                \<and> chunk_id c' = chunk_id c \<and> capacity c' = capacity c
                \<and> data_type_size c' = data_type_size c \<and> device c' = device c)"
  proof (cases "first_fit ?n (gaps (occupied (params w) c) (capacity c))")
    case None
    then show ?thesis using ch by simp
  next
    case (Some off)
    let ?new = "\<lparr>start = off, param = p, access_type = a\<rparr>"
    let ?dest = "\<lparr>view_storage = storage (payload c), view_offset = off,
                           view_numel = ?n, view_shape = [nat ?n]\<rparr>"
    let ?c' = "c\<lparr>payload := (payload c)
                          \<lparr>elements := zero_range off ?n (elements (payload c))\<rparr>,
                        tensor_info_list :=
                          TensorInfoList_add (params w) ?new (tensor_info_list c),
                        timestamp := now\<rparr>"
    from ch Some have t: "try_allocate w c p a now = (Return (Some ?dest), ?c', w)"
      and rv: "read_view (payload ?c') ?dest = replicate (nat ?n) 0"
      and tk: "take (nat off) (elements (payload ?c')) = take (nat off) (elements (payload c))"
      by auto
    have n0: "0 \<le> ?n" by (simp add: shape_numel_def)
    have ln: "length (elements (payload ?c')) = length (elements (payload c))"
    proof -
      note fb = first_fit_in_range [OF assms n0 Some [unfolded gaps_scan]]
      show ?thesis using zero_range_read(2) [OF fb(1) n0 fb(2)] by simp
    qed
    have "try_allocate w c p a now = (Return (Some ?dest), ?c', w)
        \<and> ?dest = ?dest
        \<and> payload ?c' =
            (payload c)
              \<lparr>elements :=
                 take (nat off) (elements (payload c)) @ replicate (nat ?n) 0
                 @ drop (nat (off + ?n)) (elements (payload c))\<rparr>
        \<and> length (elements (payload ?c')) = length (elements (payload c))
        \<and> read_view (payload ?c') ?dest = replicate (nat ?n) 0
        \<and> map_of (tensor_info_list ?c')
            = (map_of (tensor_info_list c))(tensor_id (params w) ?new \<mapsto> ?new)
        \<and> map fst (tensor_info_list ?c')
            = (if tensor_id (params w) ?new \<in> set (map fst (tensor_info_list c))
               then map fst (tensor_info_list c)
               else map fst (tensor_info_list c) @ [tensor_id (params w) ?new])
        \<and> timestamp ?c' = now
        \<and> chunk_id ?c' = chunk_id c \<and> capacity ?c' = capacity c
        \<and> data_type_size ?c' = data_type_size c \<and> device ?c' = device c"
      using t rv ln
      by (simp add: zero_range_def TensorInfoList_add_def map_of_dict_set dict_set_keys
            del: fun_upd_apply)
    then show ?thesis using Some by (simp only: option.case) blast
  qed
qed

theorem try_allocate_first_fit_witness:
  "in_range (params move_world) shuffled_chunk
   \<and> hosted shuffled_chunk
       = [\<lparr>start = 4, param = 1, access_type = GRAD\<rparr>,
          \<lparr>start = 0, param = 0, access_type = DATA\<rparr>,
          \<lparr>start = 7, param = 2, access_type = DATA\<rparr>]
   \<and> occupied (params move_world) shuffled_chunk = [(0, 4), (4, 3)]
   \<and> gaps (occupied (params move_world) shuffled_chunk) (capacity shuffled_chunk)
       = [(0, 0), (4, 0), (7, 3)]
   \<and> first_fit (shape_numel (ps_shape (params move_world 5)))
        (gaps (occupied (params move_world) shuffled_chunk) (capacity shuffled_chunk)) = Some 7
   \<and> (\<exists>dest c'.
          try_allocate move_world shuffled_chunk 5 DATA 9 = (Return (Some dest), c', move_world)
        \<and> dest = \<lparr>view_storage = storage (payload shuffled_chunk), view_offset = 7,
                   view_numel = shape_numel (ps_shape (params move_world 5)),
                   view_shape = [nat (shape_numel (ps_shape (params move_world 5)))]\<rparr>
        \<and> payload c' =
            (payload shuffled_chunk)
              \<lparr>elements :=
                 take (nat 7) (elements (payload shuffled_chunk))
                 @ replicate (nat (shape_numel (ps_shape (params move_world 5)))) 0
                 @ drop (nat (7 + shape_numel (ps_shape (params move_world 5))))
                     (elements (payload shuffled_chunk))\<rparr>
        \<and> length (elements (payload c')) = length (elements (payload shuffled_chunk))
        \<and> read_view (payload c') dest
            = replicate (nat (shape_numel (ps_shape (params move_world 5)))) 0
        \<and> map_of (tensor_info_list c')
            = (map_of (tensor_info_list shuffled_chunk))
                (tensor_id (params move_world) \<lparr>start = 7, param = 5, access_type = DATA\<rparr>
                   \<mapsto> \<lparr>start = 7, param = 5, access_type = DATA\<rparr>)
        \<and> map fst (tensor_info_list c')
            = (if tensor_id (params move_world) \<lparr>start = 7, param = 5, access_type = DATA\<rparr>
                    \<in> set (map fst (tensor_info_list shuffled_chunk))
               then map fst (tensor_info_list shuffled_chunk)
               else map fst (tensor_info_list shuffled_chunk)
                    @ [tensor_id (params move_world)
                         \<lparr>start = 7, param = 5, access_type = DATA\<rparr>])
        \<and> timestamp c' = 9
        \<and> chunk_id c' = chunk_id shuffled_chunk \<and> capacity c' = capacity shuffled_chunk
        \<and> data_type_size c' = data_type_size shuffled_chunk \<and> device c' = device shuffled_chunk)
   \<and> elements (payload (fst (snd (try_allocate move_world shuffled_chunk 5 DATA 9))))
       = [11, 12, 13, 14, 21, 22, 23, 0, 0, 33]
   \<and> tensor_info_list (fst (snd (try_allocate move_world shuffled_chunk 5 DATA 9)))
       = [(102, \<lparr>start = 4, param = 1, access_type = GRAD\<rparr>),
          (1, \<lparr>start = 0, param = 0, access_type = DATA\<rparr>),
          (3, \<lparr>start = 7, param = 2, access_type = DATA\<rparr>),
          (6, \<lparr>start = 7, param = 5, access_type = DATA\<rparr>)]
   \<and> first_fit (shape_numel (ps_shape (params move_world 0)))
        (gaps (occupied (params move_world) shuffled_chunk) (capacity shuffled_chunk)) = None
   \<and> try_allocate move_world shuffled_chunk 0 DATA 9 = (Return None, shuffled_chunk, move_world)"
proof -
  have h: "in_range (params move_world) shuffled_chunk" by code_simp
  have hs: "hosted shuffled_chunk
       = [\<lparr>start = 4, param = 1, access_type = GRAD\<rparr>,
          \<lparr>start = 0, param = 0, access_type = DATA\<rparr>,
          \<lparr>start = 7, param = 2, access_type = DATA\<rparr>]" by code_simp
  have o: "occupied (params move_world) shuffled_chunk = [(0, 4), (4, 3)]" by code_simp
  have g: "gaps (occupied (params move_world) shuffled_chunk) (capacity shuffled_chunk)
       = [(0, 0), (4, 0), (7, 3)]" by code_simp
  have f1: "first_fit (shape_numel (ps_shape (params move_world 5)))
        (gaps (occupied (params move_world) shuffled_chunk) (capacity shuffled_chunk)) = Some 7"
    by code_simp
  have f2: "first_fit (shape_numel (ps_shape (params move_world 0)))
        (gaps (occupied (params move_world) shuffled_chunk) (capacity shuffled_chunk)) = None"
    by code_simp
  have e: "elements (payload (fst (snd (try_allocate move_world shuffled_chunk 5 DATA 9))))
       = [11, 12, 13, 14, 21, 22, 23, 0, 0, 33]" by code_simp
  have l: "tensor_info_list (fst (snd (try_allocate move_world shuffled_chunk 5 DATA 9)))
       = [(102, \<lparr>start = 4, param = 1, access_type = GRAD\<rparr>),
          (1, \<lparr>start = 0, param = 0, access_type = DATA\<rparr>),
          (3, \<lparr>start = 7, param = 2, access_type = DATA\<rparr>),
          (6, \<lparr>start = 7, param = 5, access_type = DATA\<rparr>)]" by code_simp
  note t1 = try_allocate_first_fit [OF h, of 5 DATA 9, THEN conjunct2, THEN conjunct2,
              unfolded f1 option.case]
  note t2 = try_allocate_first_fit [OF h, of 0 DATA 9, THEN conjunct2, THEN conjunct2,
              unfolded f2 option.case]
  show ?thesis
    by (rule conjI [OF h conjI [OF hs conjI [OF o conjI [OF g conjI [OF f1 conjI [OF t1 conjI [OF e
          conjI [OF l conjI [OF f2 t2]]]]]]]]])
qed

subsection \<open>Moving a chunk\<close>

lemma same_meta_refl [simp]: "same_meta h h"
  by (simp add: same_meta_def)

lemma same_meta_trans: "same_meta h h1 \<Longrightarrow> same_meta h1 h2 \<Longrightarrow> same_meta h h2"
  by (simp add: same_meta_def)

lemma same_meta_data [simp]:
  "same_meta h (h(p := (h p)\<lparr>ps_data_tensor := x, param_data := y\<rparr>))"
  by (simp add: same_meta_def)

lemma same_meta_grad [simp]:
  "same_meta h (h(p := (h p)\<lparr>ps_grad_tensor := x, param_grad := y\<rparr>))"
  by (simp add: same_meta_def)

lemma same_meta_reads:
  assumes "same_meta h h'"
  shows "tensor_id h' = tensor_id h" "status h' = status h" "numel h' = numel h"
    and "ps_shape (h' q) = ps_shape (h q)"
  using assms
  by (auto simp: same_meta_def tensor_id_def status_def numel_def fun_eq_iff
           split: AccessType.splits)

lemma repoint_Cons_cases:
  assumes "repoint h pl pdd pgd (info # rest) = (r, h')"
  obtains
    (free) "status h info = TENSOR_FREE" "repoint h pl pdd pgd rest = (r, h')"
  | (data) p where "status h info \<noteq> TENSOR_FREE" "pdd (tensor_id h info) = Some p"
      "repoint (h(p := (h p)\<lparr>ps_data_tensor := Some (item_view h pl info p),
                               param_data := Some (item_view h pl info p)\<rparr>))
         pl pdd pgd rest = (r, h')"
  | (grad) p where "status h info \<noteq> TENSOR_FREE" "pdd (tensor_id h info) = None"
      "pgd (tensor_id h info) = Some p"
      "repoint (h(p := (h p)\<lparr>ps_grad_tensor := Some (item_view h pl info p),
                               param_grad := None\<rparr>))
         pl pdd pgd rest = (r, h')"
  | (fail) e where "status h info \<noteq> TENSOR_FREE" "r = Raise e" "h' = h"
  using assms
  by (auto simp: Let_def narrow_def view_as_def item_view_def
           split: if_splits option.splits result.splits)

lemma repoint_meta:
  "repoint h pl pdd pgd infos = (r, h') \<Longrightarrow> same_meta h h'"
proof (induction infos arbitrary: h)
  case Nil
  then show ?case by simp
next
  case (Cons info rest)
  from Cons.prems show ?case
  proof (cases rule: repoint_Cons_cases)
    case free
    then show ?thesis using Cons.IH by simp
  next
    case (data p)
    from Cons.IH [OF data(3)] show ?thesis
      using same_meta_trans [OF same_meta_data] by blast
  next
    case (grad p)
    from Cons.IH [OF grad(4)] show ?thesis
      using same_meta_trans [OF same_meta_grad] by blast
  next
    case (fail e)
    then show ?thesis by simp
  qed
qed

lemma repoint_data_frame:
  assumes "repoint h pl pdd pgd infos = (r, h')"
      and "\<forall>info\<in>set infos. status h info \<noteq> TENSOR_FREE \<longrightarrow> pdd (tensor_id h info) \<noteq> Some q"
  shows "ps_data_tensor (h' q) = ps_data_tensor (h q) \<and> param_data (h' q) = param_data (h q)"
  using assms
proof (induction infos arbitrary: h)
  case Nil
  then show ?case by simp
next
  case (Cons info rest)
  from Cons.prems(1) show ?case
  proof (cases rule: repoint_Cons_cases)
    case free
    then show ?thesis using Cons.IH Cons.prems(2) by simp
  next
    case (data p)
    let ?h1 = "h(p := (h p)\<lparr>ps_data_tensor := Some (item_view h pl info p),
                               param_data := Some (item_view h pl info p)\<rparr>)"
    have pq: "p \<noteq> q" using data(1) data(2) Cons.prems(2) by auto
    have sm: "same_meta h ?h1" by simp
    have "\<forall>info\<in>set rest. status ?h1 info \<noteq> TENSOR_FREE
            \<longrightarrow> pdd (tensor_id ?h1 info) \<noteq> Some q"
      using Cons.prems(2) by (simp add: same_meta_reads [OF sm])
    from Cons.IH [OF data(3) this] show ?thesis using pq by simp
  next
    case (grad p)
    let ?h1 = "h(p := (h p)\<lparr>ps_grad_tensor := Some (item_view h pl info p),
                               param_grad := None\<rparr>)"
    have sm: "same_meta h ?h1" by simp
    have "\<forall>info\<in>set rest. status ?h1 info \<noteq> TENSOR_FREE
            \<longrightarrow> pdd (tensor_id ?h1 info) \<noteq> Some q"
      using Cons.prems(2) by (simp add: same_meta_reads [OF sm])
    from Cons.IH [OF grad(4) this] show ?thesis by simp
  next
    case (fail e)
    then show ?thesis by simp
  qed
qed

lemma repoint_grad_frame:
  assumes "repoint h pl pdd pgd infos = (r, h')"
      and "\<forall>info\<in>set infos. status h info \<noteq> TENSOR_FREE \<longrightarrow> pdd (tensor_id h info) = None
             \<longrightarrow> pgd (tensor_id h info) \<noteq> Some q"
  shows "ps_grad_tensor (h' q) = ps_grad_tensor (h q)"
  using assms
proof (induction infos arbitrary: h)
  case Nil
  then show ?case by simp
next
  case (Cons info rest)
  from Cons.prems(1) show ?case
  proof (cases rule: repoint_Cons_cases)
    case free
    then show ?thesis using Cons.IH Cons.prems(2) by simp
  next
    case (data p)
    let ?h1 = "h(p := (h p)\<lparr>ps_data_tensor := Some (item_view h pl info p),
                               param_data := Some (item_view h pl info p)\<rparr>)"
    have sm: "same_meta h ?h1" by simp
    have "\<forall>info\<in>set rest. status ?h1 info \<noteq> TENSOR_FREE \<longrightarrow> pdd (tensor_id ?h1 info) = None
            \<longrightarrow> pgd (tensor_id ?h1 info) \<noteq> Some q"
      using Cons.prems(2) by (simp add: same_meta_reads [OF sm])
    from Cons.IH [OF data(3) this] show ?thesis by simp
  next
    case (grad p)
    let ?h1 = "h(p := (h p)\<lparr>ps_grad_tensor := Some (item_view h pl info p),
                               param_grad := None\<rparr>)"
    have pq: "p \<noteq> q" using grad(1) grad(2) grad(3) Cons.prems(2) by auto
    have sm: "same_meta h ?h1" by simp
    have "\<forall>info\<in>set rest. status ?h1 info \<noteq> TENSOR_FREE \<longrightarrow> pdd (tensor_id ?h1 info) = None
            \<longrightarrow> pgd (tensor_id ?h1 info) \<noteq> Some q"
      using Cons.prems(2) by (simp add: same_meta_reads [OF sm])
    from Cons.IH [OF grad(4) this] show ?thesis using pq by simp
  next
    case (fail e)
    then show ?thesis by simp
  qed
qed

lemma item_view_meta:
  assumes "same_meta h h1"
  shows "item_view h1 pl info p = item_view h pl info p"
  by (simp add: item_view_def same_meta_reads [OF assms])

lemma relocated_meta:
  assumes "same_meta h h1"
  shows "relocated h1 h' pl info = relocated h h' pl info"
  by (cases "access_type info") (simp_all add: relocated_def item_view_meta [OF assms])

lemma resolved_meta:
  assumes "same_meta h h1"
  shows "resolved h1 pdd pgd info = resolved h pdd pgd info"
  by (cases "access_type info") (simp_all add: resolved_def same_meta_reads [OF assms])

lemma repoint_relocates:
  assumes "repoint h pl pdd pgd infos = (Return u, h')"
      and "\<forall>info\<in>set infos. status h info \<noteq> TENSOR_FREE \<longrightarrow> resolved h pdd pgd info"
      and "distinct (map (tensor_id h) infos)"
  shows "\<forall>info\<in>set infos. status h info \<noteq> TENSOR_FREE \<longrightarrow> relocated h h' pl info"
  using assms
proof (induction infos arbitrary: h)
  case Nil
  then show ?case by simp
next
  case (Cons info rest)
  have ni: "tensor_id h info \<notin> tensor_id h ` set rest"
    and dr: "distinct (map (tensor_id h) rest)"
    using Cons.prems(3) by auto
  have notin: "tensor_id h i \<noteq> tensor_id h info" if "i \<in> set rest" for i
    using ni that by (metis imageI)
  have res_rest: "\<forall>i\<in>set rest. status h i \<noteq> TENSOR_FREE \<longrightarrow> resolved h pdd pgd i"
    using Cons.prems(2) by simp
  from Cons.prems(1) show ?case
  proof (cases rule: repoint_Cons_cases)
    case free
    from Cons.IH [OF free(2) res_rest dr] free(1) show ?thesis by simp
  next
    case (data p)
    let ?h1 = "h(p := (h p)\<lparr>ps_data_tensor := Some (item_view h pl info p),
                               param_data := Some (item_view h pl info p)\<rparr>)"
    have sm: "same_meta h ?h1" by simp
    note rd = same_meta_reads [OF sm]
    have res: "resolved h pdd pgd info" using Cons.prems(2) data(1) by simp
    have acc: "access_type info = DATA" and own: "param info = p"
      using res data(2) by (auto simp: resolved_def split: AccessType.splits)
    have res1: "\<forall>i\<in>set rest. status ?h1 i \<noteq> TENSOR_FREE \<longrightarrow> resolved ?h1 pdd pgd i"
      using res_rest by (simp only: rd(2) resolved_meta [OF sm])
    have dr1: "distinct (map (tensor_id ?h1) rest)" using dr by (simp only: rd(1))
    from Cons.IH [OF data(3) res1 dr1]
    have rest: "\<forall>i\<in>set rest. status h i \<noteq> TENSOR_FREE \<longrightarrow> relocated h h' pl i"
      by (simp only: rd(2) relocated_meta [OF sm])
    have "\<forall>i\<in>set rest. status ?h1 i \<noteq> TENSOR_FREE \<longrightarrow> pdd (tensor_id ?h1 i) \<noteq> Some p"
    proof (intro ballI impI notI)
      fix i assume i: "i \<in> set rest" and st: "status ?h1 i \<noteq> TENSOR_FREE"
        and "pdd (tensor_id ?h1 i) = Some p"
      then have pi: "pdd (tensor_id h i) = Some p" by (simp add: rd)
      have ri: "resolved h pdd pgd i" using res_rest i st by (simp add: rd)
      have "access_type i = DATA \<and> param i = p"
        using ri pi by (auto simp: resolved_def split: AccessType.splits)
      then have "tensor_id h i = tensor_id h info" using acc own by (simp add: tensor_id_def)
      then show False using notin [OF i] by simp
    qed
    from repoint_data_frame [OF data(3) this]
    have "relocated h h' pl info" by (simp add: relocated_def acc own)
    then show ?thesis using rest by simp
  next
    case (grad p)
    let ?h1 = "h(p := (h p)\<lparr>ps_grad_tensor := Some (item_view h pl info p),
                               param_grad := None\<rparr>)"
    have sm: "same_meta h ?h1" by simp
    note rd = same_meta_reads [OF sm]
    have res: "resolved h pdd pgd info" using Cons.prems(2) grad(1) by simp
    have acc: "access_type info = GRAD" and own: "param info = p"
      using res grad(2) grad(3) by (auto simp: resolved_def split: AccessType.splits)
    have res1: "\<forall>i\<in>set rest. status ?h1 i \<noteq> TENSOR_FREE \<longrightarrow> resolved ?h1 pdd pgd i"
      using res_rest by (simp only: rd(2) resolved_meta [OF sm])
    have dr1: "distinct (map (tensor_id ?h1) rest)" using dr by (simp only: rd(1))
    from Cons.IH [OF grad(4) res1 dr1]
    have rest: "\<forall>i\<in>set rest. status h i \<noteq> TENSOR_FREE \<longrightarrow> relocated h h' pl i"
      by (simp only: rd(2) relocated_meta [OF sm])
    have "\<forall>i\<in>set rest. status ?h1 i \<noteq> TENSOR_FREE \<longrightarrow> pdd (tensor_id ?h1 i) = None
            \<longrightarrow> pgd (tensor_id ?h1 i) \<noteq> Some p"
    proof (intro ballI impI notI)
      fix i assume i: "i \<in> set rest" and st: "status ?h1 i \<noteq> TENSOR_FREE"
        and "pdd (tensor_id ?h1 i) = None" and "pgd (tensor_id ?h1 i) = Some p"
      then have pi: "pdd (tensor_id h i) = None" "pgd (tensor_id h i) = Some p"
        by (simp_all add: rd)
      have ri: "resolved h pdd pgd i" using res_rest i st by (simp add: rd)
      have "access_type i = GRAD \<and> param i = p"
        using ri pi by (auto simp: resolved_def split: AccessType.splits)
      then have "tensor_id h i = tensor_id h info" using acc own by (simp add: tensor_id_def)
      then show False using notin [OF i] by simp
    qed
    from repoint_grad_frame [OF grad(4) this]
    have "relocated h h' pl info" by (simp add: relocated_def acc own)
    then show ?thesis using rest by simp
  next
    case (fail e)
    then show ?thesis by simp
  qed
qed

lemma repoint_unresolved:
  assumes "\<exists>info\<in>set infos. status h info \<noteq> TENSOR_FREE
             \<and> pdd (tensor_id h info) = None \<and> pgd (tensor_id h info) = None"
  shows "\<exists>e. fst (repoint h pl pdd pgd infos) = Raise e"
  using assms
proof (induction infos arbitrary: h)
  case Nil
  then show ?case by simp
next
  case (Cons info rest)
  obtain r h' where rp: "repoint h pl pdd pgd (info # rest) = (r, h')"
    by (cases "repoint h pl pdd pgd (info # rest)")
  from rp show ?case
  proof (cases rule: repoint_Cons_cases)
    case free
    then have "\<exists>i\<in>set rest. status h i \<noteq> TENSOR_FREE
             \<and> pdd (tensor_id h i) = None \<and> pgd (tensor_id h i) = None"
      using Cons.prems by auto
    from Cons.IH [OF this] have "\<exists>e. fst (repoint h pl pdd pgd rest) = Raise e" .
    then show ?thesis using free rp by simp
  next
    case (data p)
    let ?h1 = "h(p := (h p)\<lparr>ps_data_tensor := Some (item_view h pl info p),
                               param_data := Some (item_view h pl info p)\<rparr>)"
    have sm: "same_meta h ?h1" by simp
    have "\<exists>i\<in>set rest. status ?h1 i \<noteq> TENSOR_FREE
             \<and> pdd (tensor_id ?h1 i) = None \<and> pgd (tensor_id ?h1 i) = None"
      using Cons.prems data(2) by (auto simp: same_meta_reads [OF sm])
    from Cons.IH [OF this] have "\<exists>e. fst (repoint ?h1 pl pdd pgd rest) = Raise e" .
    then show ?thesis using data(3) rp by simp
  next
    case (grad p)
    let ?h1 = "h(p := (h p)\<lparr>ps_grad_tensor := Some (item_view h pl info p),
                               param_grad := None\<rparr>)"
    have sm: "same_meta h ?h1" by simp
    have "\<exists>i\<in>set rest. status ?h1 i \<noteq> TENSOR_FREE
             \<and> pdd (tensor_id ?h1 i) = None \<and> pgd (tensor_id ?h1 i) = None"
      using Cons.prems grad(3) by (auto simp: same_meta_reads [OF sm])
    from Cons.IH [OF this] have "\<exists>e. fst (repoint ?h1 pl pdd pgd rest) = Raise e" .
    then show ?thesis using grad(4) rp by simp
  next
    case (fail e)
    then show ?thesis using rp by simp
  qed
qed

lemma params_ps_manager [simp]:
  "params (ps_manager_add d b w) = params w"
  "params (ps_manager_delete d b w) = params w"
  by (simp_all add: ps_manager_add_def ps_manager_delete_def)

lemma distinct_map_sort_key:
  "distinct (map f (sort_key k xs)) = distinct (map f xs)"
proof -
  have "mset (map f (sort_key k xs)) = mset (map f xs)" by (simp only: mset_map mset_sort)
  then show ?thesis by (rule mset_eq_imp_distinct_iff)
qed

text \<open>
  C4, amended. When the chunk's device equals the target, \<^verbatim>\<open>move\<close> changes nothing.
  Otherwise, after \<^verbatim>\<open>move\<close> returns, the chunk is on the target with a payload of the
  same elements, its descriptors are as before, the accounting has moved the chunk's
  bytes from the old device to the target, and no parameter's shape, id or status has
  changed; and, provided the hosted descriptors have pairwise distinct ids and the
  dicts resolve every descriptor whose status is not FREE to its owning parameter (a
  data descriptor through the data dict, a gradient descriptor through the grad dict,
  its id having no entry in the data dict), every descriptor whose status is not FREE
  is reachable through its owning parameter: the owner holds, in \<^verbatim>\<open>ps_data_tensor\<close> for
  a data descriptor and in \<^verbatim>\<open>ps_grad_tensor\<close> for a gradient descriptor, the view of the
  new payload at the descriptor's start, with the descriptor's element count and the
  owner's shape. A descriptor whose status is not FREE and whose id resolves in neither
  dict makes \<^verbatim>\<open>move\<close> raise.
\<close>

theorem move_preserves_mapping:
  "(device c = target \<longrightarrow> move w c pdd pgd target now = (Return (), c, w))
   \<and> (device c \<noteq> target \<and> move w c pdd pgd target now = (Return (), c', w') \<longrightarrow>
        device c' = target
      \<and> tensor_device (payload c') = target
      \<and> elements (payload c') = elements (payload c)
      \<and> tensor_info_list c' = tensor_info_list c
      \<and> capacity c' = capacity c
      \<and> same_meta (params w) (params w')
      \<and> ps_used w' =
          ps_used (ps_manager_delete (device c) (capacity c * data_type_size c)
                    (ps_manager_add target (capacity c * data_type_size c) w))
      \<and> (distinct (map (tensor_id (params w)) (hosted c))
           \<and> owners_resolved (params w) c pdd pgd \<longrightarrow>
         list_all (\<lambda>info. status (params w) info = TENSOR_FREE
                          \<or> relocated (params w) (params w') (payload c') info)
           (hosted c)))
   \<and> (device c \<noteq> target
        \<and> list_ex (\<lambda>info. status (params w) info \<noteq> TENSOR_FREE
                       \<and> pdd (tensor_id (params w) info) = None
                       \<and> pgd (tensor_id (params w) info) = None) (hosted c) \<longrightarrow>
      (\<exists>e. fst (move w c pdd pgd target now) = Raise e))"
proof (intro conjI impI)
  assume "device c = target"
  then show "move w c pdd pgd target now = (Return (), c, w)" by (simp add: move_def)
next
  let ?pl = "\<lparr>storage = next_storage w, tensor_device = target,
                   elements = elements (payload c)\<rparr>"
  let ?w1 = "ps_manager_delete (device c) (capacity c * data_type_size c)
                    (ps_manager_add target (capacity c * data_type_size c)
                       (w\<lparr>next_storage := Suc (next_storage w)\<rparr>))"
  let ?infos = "generate_in_sorted_order (tensor_info_list c)"
  have set_infos: "set ?infos = set (hosted c)"
    by (simp add: set_generate_in_sorted_order hosted_def)
  {
    assume a: "device c \<noteq> target \<and> move w c pdd pgd target now = (Return (), c', w')"
    obtain r h' where rp: "repoint (params w) ?pl pdd pgd ?infos = (r, h')"
      by (cases "repoint (params w) ?pl pdd pgd ?infos")
    have mv: "move w c pdd pgd target now =
        (case (r, h') of
              (Raise e, h) \<Rightarrow> (Raise e, c\<lparr>payload := ?pl\<rparr>, ?w1\<lparr>params := h\<rparr>)
            | (Return _, h) \<Rightarrow>
                (Return (), c\<lparr>payload := ?pl, device := target, timestamp := now\<rparr>,
                 ?w1\<lparr>params := h\<rparr>))"
      using a rp by (simp add: move_def Let_def)
    then obtain u where r: "r = Return u" using a by (cases r) auto
    have c': "c' = c\<lparr>payload := ?pl, device := target, timestamp := now\<rparr>"
      and w': "w' = ?w1\<lparr>params := h'\<rparr>"
      using mv a r by auto
    have sm: "same_meta (params w) h'" using repoint_meta [OF rp] .
    show "device c' = target" by (simp add: c')
    show "tensor_device (payload c') = target" by (simp add: c')
    show "elements (payload c') = elements (payload c)" by (simp add: c')
    show "tensor_info_list c' = tensor_info_list c" by (simp add: c')
    show "capacity c' = capacity c" by (simp add: c')
    show "same_meta (params w) (params w')" using sm by (simp add: w')
    show "ps_used w' =
              ps_used (ps_manager_delete (device c) (capacity c * data_type_size c)
                        (ps_manager_add target (capacity c * data_type_size c) w))"
      by (simp add: w' ps_manager_delete_def ps_manager_add_def)
    {
      assume b: "distinct (map (tensor_id (params w)) (hosted c))
           \<and> owners_resolved (params w) c pdd pgd"
      have di': "distinct (map (tensor_id (params w)) ?infos)"
        using b by (simp add: generate_in_sorted_order_def distinct_map_sort_key hosted_def)
      have res: "\<forall>info\<in>set ?infos. status (params w) info \<noteq> TENSOR_FREE
                   \<longrightarrow> resolved (params w) pdd pgd info"
        using b set_infos by (auto simp: owners_resolved_def list_all_iff)
      from repoint_relocates [OF rp [unfolded r] res di']
      have rel: "\<forall>info\<in>set (hosted c). status (params w) info \<noteq> TENSOR_FREE \<longrightarrow>
                   relocated (params w) h' ?pl info"
        using set_infos by simp
      show "list_all (\<lambda>info. status (params w) info = TENSOR_FREE
                             \<or> relocated (params w) (params w') (payload c') info)
                (hosted c)"
        using rel by (auto simp: list_all_iff c' w')
    }
  }
  {
    assume a: "device c \<noteq> target
            \<and> list_ex (\<lambda>info. status (params w) info \<noteq> TENSOR_FREE
                           \<and> pdd (tensor_id (params w) info) = None
                           \<and> pgd (tensor_id (params w) info) = None) (hosted c)"
    then have "\<exists>info\<in>set ?infos. status (params w) info \<noteq> TENSOR_FREE
             \<and> pdd (tensor_id (params w) info) = None \<and> pgd (tensor_id (params w) info) = None"
      using set_infos by (auto simp: list_ex_iff)
    from repoint_unresolved [OF this]
    obtain e where "fst (repoint (params w) ?pl pdd pgd ?infos) = Raise e" by blast
    then show "\<exists>e. fst (move w c pdd pgd target now) = Raise e"
      using a by (auto simp: move_def Let_def split: prod.splits)
  }
qed

text \<open>
  C4, as stated, fails in four ways. A descriptor whose status is FREE is skipped before
  its id is looked up, so an id that resolves in neither dict raises nothing when the
  descriptor is released. \<^verbatim>\<open>move\<close> writes the view to the parameter the dict holds for
  the id, not to the descriptor's \<^verbatim>\<open>param\<close>: when the data dict resolves the id to another
  parameter object, the owner is left without a view. The data dict is asked first for
  every descriptor: when it has an entry for a gradient descriptor's id, the gradient's
  view goes to the owner's \<^verbatim>\<open>ps_data_tensor\<close>, over the view of the data descriptor, and
  \<^verbatim>\<open>ps_grad_tensor\<close> stays empty. Two descriptors with the same id in use are written to
  the same field, and the owner is left with the view of the later one.
\<close>

theorem move_skips_released_unresolved:
  "device move_chunk \<noteq> Device CUDA (Some 0)
   \<and> list_ex (\<lambda>info. move_data_dict (tensor_id (params move_world) info) = None
                    \<and> move_grad_dict (tensor_id (params move_world) info) = None)
        (hosted move_chunk)
   \<and> fst (move move_world move_chunk move_data_dict move_grad_dict (Device CUDA (Some 0)) 5)
       = Return ()
   \<and> fst (move alias_world move_chunk alias_data_dict move_grad_dict (Device CUDA (Some 0)) 5)
       = Return ()
   \<and> \<lparr>start = 0, param = 0, access_type = DATA\<rparr> \<in> set (hosted move_chunk)
   \<and> status (params alias_world) \<lparr>start = 0, param = 0, access_type = DATA\<rparr> = TENSOR_HOLD
   \<and> alias_data_dict (tensor_id (params alias_world) \<lparr>start = 0, param = 0, access_type = DATA\<rparr>)
       = Some 7
   \<and> ps_data_tensor
        (params (snd (snd (move alias_world move_chunk alias_data_dict move_grad_dict
                             (Device CUDA (Some 0)) 5))) 0) = None
   \<and> device twin_chunk \<noteq> Device CUDA (Some 0)
   \<and> fst (move twin_world twin_chunk twin_data_dict twin_grad_dict (Device CUDA (Some 0)) 5)
       = Return ()
   \<and> hosted twin_chunk
       = [\<lparr>start = 0, param = 0, access_type = DATA\<rparr>, \<lparr>start = 4, param = 0, access_type = GRAD\<rparr>]
   \<and> list_all (\<lambda>info. status (params twin_world) info = TENSOR_HOLD
                    \<and> (twin_data_dict (tensor_id (params twin_world) info) = Some (param info)
                       \<or> twin_grad_dict (tensor_id (params twin_world) info) = Some (param info)))
        (hosted twin_chunk)
   \<and> map_option view_offset
        (ps_data_tensor
           (params (snd (snd (move twin_world twin_chunk twin_data_dict twin_grad_dict
                                (Device CUDA (Some 0)) 5))) 0)) = Some 4
   \<and> ps_grad_tensor
        (params (snd (snd (move twin_world twin_chunk twin_data_dict twin_grad_dict
                             (Device CUDA (Some 0)) 5))) 0) = None
   \<and> device stale_chunk \<noteq> Device CUDA (Some 0)
   \<and> fst (move move_world stale_chunk move_data_dict move_grad_dict (Device CUDA (Some 0)) 5)
       = Return ()
   \<and> hosted stale_chunk
       = [\<lparr>start = 0, param = 0, access_type = DATA\<rparr>, \<lparr>start = 4, param = 0, access_type = DATA\<rparr>]
   \<and> list_all (\<lambda>info. status (params move_world) info = TENSOR_HOLD
                    \<and> move_data_dict (tensor_id (params move_world) info) = Some (param info))
        (hosted stale_chunk)
   \<and> map_option view_offset
        (ps_data_tensor
           (params (snd (snd (move move_world stale_chunk move_data_dict move_grad_dict
                                (Device CUDA (Some 0)) 5))) 0)) = Some 4"
  by code_simp

theorem move_preserves_mapping_witness:
  "move move_world move_chunk move_data_dict move_grad_dict (Device CPU None) 5
       = (Return (), move_chunk, move_world)
   \<and> device move_chunk \<noteq> Device CUDA (Some 0)
   \<and> fst (move move_world move_chunk move_data_dict move_grad_dict (Device CUDA (Some 0)) 5)
       = Return ()
   \<and> device (fst (snd (move move_world move_chunk move_data_dict move_grad_dict
                          (Device CUDA (Some 0)) 5))) = Device CUDA (Some 0)
   \<and> elements (payload (fst (snd (move move_world move_chunk move_data_dict move_grad_dict
                          (Device CUDA (Some 0)) 5)))) = elements (payload move_chunk)
   \<and> same_meta (params move_world)
        (params (snd (snd (move move_world move_chunk move_data_dict move_grad_dict
                          (Device CUDA (Some 0)) 5))))
   \<and> distinct (map (tensor_id (params move_world)) (hosted move_chunk))
   \<and> owners_resolved (params move_world) move_chunk move_data_dict move_grad_dict
   \<and> list_all (\<lambda>info. status (params move_world) info = TENSOR_FREE
                    \<or> relocated (params move_world)
                         (params (snd (snd (move move_world move_chunk move_data_dict
                                              move_grad_dict (Device CUDA (Some 0)) 5))))
                         (payload (fst (snd (move move_world move_chunk move_data_dict
                                              move_grad_dict (Device CUDA (Some 0)) 5))))
                         info)
        (hosted move_chunk)
   \<and> ps_data_tensor
        (params (snd (snd (move move_world move_chunk move_data_dict move_grad_dict
                             (Device CUDA (Some 0)) 5))) 0)
       = Some \<lparr>view_storage = 1, view_offset = 0, view_numel = 4, view_shape = [2, 2]\<rparr>
   \<and> ps_grad_tensor
        (params (snd (snd (move move_world move_chunk move_data_dict move_grad_dict
                             (Device CUDA (Some 0)) 5))) 1)
       = Some \<lparr>view_storage = 1, view_offset = 4, view_numel = 3, view_shape = [3]\<rparr>
   \<and> list_ex (\<lambda>info. status (params move_world) info \<noteq> TENSOR_FREE
                    \<and> Map.empty (tensor_id (params move_world) info) = (None :: nat option)
                    \<and> move_grad_dict (tensor_id (params move_world) info) = None)
        (hosted move_chunk)
   \<and> (\<exists>e. fst (move move_world move_chunk Map.empty move_grad_dict (Device CUDA (Some 0)) 5)
            = Raise e)"
proof -
  let ?cuda = "Device CUDA (Some 0)"
  let ?m = "move move_world move_chunk move_data_dict move_grad_dict ?cuda 5"
  have di: "distinct (map (tensor_id (params move_world)) (hosted move_chunk))" by code_simp
  have ow: "owners_resolved (params move_world) move_chunk move_data_dict move_grad_dict"
    by code_simp
  have ne: "device move_chunk \<noteq> ?cuda" by code_simp
  have cpu: "device move_chunk = Device CPU None" by code_simp
  have rt: "fst ?m = Return ()" by code_simp
  then have m: "?m = (Return (), fst (snd ?m), snd (snd ?m))" by (metis prod.collapse)
  have ex: "list_ex (\<lambda>info. status (params move_world) info \<noteq> TENSOR_FREE
                    \<and> Map.empty (tensor_id (params move_world) info) = (None :: nat option)
                    \<and> move_grad_dict (tensor_id (params move_world) info) = None)
        (hosted move_chunk)" by code_simp
  have v1: "ps_data_tensor (params (snd (snd ?m)) 0)
       = Some \<lparr>view_storage = 1, view_offset = 0, view_numel = 4, view_shape = [2, 2]\<rparr>"
    by code_simp
  have v2: "ps_grad_tensor (params (snd (snd ?m)) 1)
       = Some \<lparr>view_storage = 1, view_offset = 4, view_numel = 3, view_shape = [3]\<rparr>"
    by code_simp
  note t1 = move_preserves_mapping
              [of move_chunk "Device CPU None" move_world move_data_dict move_grad_dict 5]
  note t2 = move_preserves_mapping
              [of move_chunk ?cuda move_world move_data_dict move_grad_dict 5
                  "fst (snd ?m)" "snd (snd ?m)"]
  note t3 = move_preserves_mapping [of move_chunk ?cuda move_world Map.empty move_grad_dict 5]
  have r1: "move move_world move_chunk move_data_dict move_grad_dict (Device CPU None) 5
       = (Return (), move_chunk, move_world)" using t1 cpu by blast
  have r2: "device (fst (snd ?m)) = ?cuda" using t2 ne m by blast
  have r3: "elements (payload (fst (snd ?m))) = elements (payload move_chunk)"
    using t2 ne m by blast
  have r4: "same_meta (params move_world) (params (snd (snd ?m)))" using t2 ne m by blast
  have r5: "list_all (\<lambda>info. status (params move_world) info = TENSOR_FREE
                    \<or> relocated (params move_world) (params (snd (snd ?m)))
                         (payload (fst (snd ?m))) info)
        (hosted move_chunk)" using t2 ne m di ow by blast
  have r6: "\<exists>e. fst (move move_world move_chunk Map.empty move_grad_dict ?cuda 5) = Raise e"
    using t3 ne ex by blast
  show ?thesis
    by (rule conjI [OF r1 conjI [OF ne conjI [OF rt conjI [OF r2 conjI [OF r3 conjI [OF r4
          conjI [OF di conjI [OF ow conjI [OF r5 conjI [OF v1 conjI [OF v2
          conjI [OF ex r6]]]]]]]]]]]])
qed

subsection \<open>Allocation keeps resident ranges apart when every item has an element\<close>

text \<open>
  Between the resident descriptors, sorted by start, each one ends before the next
  starts; the gap that first fit finds lies between two of them or after the last.
  So \<^verbatim>\<open>try_allocate\<close> of a parameter with at least one element never raises and keeps
  the invariant, as long as statuses and shapes are not changed in between. The
  constructor allocates the payload at once and reserves its bytes.
\<close>

lemma disjoint_invD:
  assumes "disjoint_inv h c"
  shows "int (length (elements (payload c))) = capacity c"
    and "distinct (map fst (tensor_info_list c))"
    and "\<And>k i. (k, i) \<in> set (tensor_info_list c) \<Longrightarrow> resident h i \<Longrightarrow>
           0 \<le> start i \<and> start i + numel h i \<le> capacity c \<and> 1 \<le> numel h i"
    and "\<And>k i k' j. (k, i) \<in> set (tensor_info_list c) \<Longrightarrow> (k', j) \<in> set (tensor_info_list c) \<Longrightarrow>
           k \<noteq> k' \<Longrightarrow> resident h i \<Longrightarrow> resident h j \<Longrightarrow> \<not> ranges_overlap h i j"
proof -
  show "int (length (elements (payload c))) = capacity c"
    using assms unfolding disjoint_inv_def by (rule conjunct1)
  show "distinct (map fst (tensor_info_list c))"
    using assms unfolding disjoint_inv_def by (elim conjE)
  show "0 \<le> start i \<and> start i + numel h i \<le> capacity c \<and> 1 \<le> numel h i"
    if "(k, i) \<in> set (tensor_info_list c)" "resident h i" for k i
  proof -
    have "\<forall>(k, i)\<in>set (tensor_info_list c).
            resident h i \<longrightarrow> 0 \<le> start i \<and> start i + numel h i \<le> capacity c \<and> 1 \<le> numel h i"
      using assms unfolding disjoint_inv_def by (elim conjE)
    then show ?thesis using that by blast
  qed
  show "\<not> ranges_overlap h i j"
    if "(k, i) \<in> set (tensor_info_list c)" "(k', j) \<in> set (tensor_info_list c)"
       "k \<noteq> k'" "resident h i" "resident h j" for k i k' j
  proof -
    have "\<forall>(k, i)\<in>set (tensor_info_list c). \<forall>(k', j)\<in>set (tensor_info_list c).
            k \<noteq> k' \<and> resident h i \<and> resident h j \<longrightarrow> \<not> ranges_overlap h i j"
      using assms unfolding disjoint_inv_def by (elim conjE)
    then show ?thesis using that by blast
  qed
qed

lemma insort_key_map:
  "insort_key f (g x) (map g ys) = map g (insort_key (\<lambda>y. f (g y)) x ys)"
  by (induction ys) auto

lemma sort_key_map: "sort_key f (map g xs) = map g (sort_key (\<lambda>y. f (g y)) xs)"
  by (induction xs) (auto simp: insort_key_map)

lemma gap_disjoint:
  assumes "sorted_wrt (\<lambda>x y. fst x + snd x \<le> fst y) ps"
      and "\<forall>x\<in>set ps. 0 \<le> snd x \<and> pe \<le> fst x"
      and "first_fit n (gaps_from pe ps cap) = Some off"
  shows "pe \<le> off \<and> (\<forall>x\<in>set ps. fst x + snd x \<le> off \<or> off + n \<le> fst x)"
  using assms
proof (induction ps arbitrary: pe)
  case Nil
  then show ?case by (auto simp: first_fit_def split: if_splits)
next
  case (Cons r ps)
  obtain s m where r: "r = (s, m)" by (cases r)
  have later: "\<forall>x\<in>set ps. s + m \<le> fst x" using Cons.prems(1) r by auto
  have hd: "0 \<le> m" "pe \<le> s" using Cons.prems(2) r by auto
  show ?case
  proof (cases "n \<le> s - pe")
    case True
    then have "off = pe" using Cons.prems(3) r by (simp add: first_fit_def)
    then show ?thesis using True later hd r by fastforce
  next
    case False
    then have ff: "first_fit n (gaps_from (s + m) ps cap) = Some off"
      using Cons.prems(3) r by (simp add: first_fit_def)
    have "sorted_wrt (\<lambda>x y. fst x + snd x \<le> fst y) ps" using Cons.prems(1) by simp
    moreover have "\<forall>x\<in>set ps. 0 \<le> snd x \<and> s + m \<le> fst x"
      using Cons.prems(2) later by auto
    ultimately have "s + m \<le> off \<and> (\<forall>x\<in>set ps. fst x + snd x \<le> off \<or> off + n \<le> fst x)"
      using Cons.IH ff by blast
    then show ?thesis using hd r by auto
  qed
qed

lemma occupied_chain:
  assumes "disjoint_inv h c"
  shows "sorted_wrt (\<lambda>x y. fst x + snd x \<le> fst y) (occupied h c)"
proof -
  let ?es = "tensor_info_list c"
  let ?ses = "filter (\<lambda>e. resident h (snd e)) (sort_key (\<lambda>e. start (snd e)) ?es)"
  have occ: "occupied h c = map (\<lambda>e. (start (snd e), numel h (snd e))) ?ses"
    by (simp add: occupied_scan generate_in_sorted_order_def sort_key_map filter_map o_def)
  have dk: "distinct (map fst ?ses)"
  proof -
    have "mset (map fst (sort_key (\<lambda>e. start (snd e)) ?es)) = mset (map fst ?es)"
      by (simp only: mset_map mset_sort)
    then have "distinct (map fst (sort_key (\<lambda>e. start (snd e)) ?es)) = distinct (map fst ?es)"
      by (rule mset_eq_imp_distinct_iff)
    then have "distinct (map fst (sort_key (\<lambda>e. start (snd e)) ?es))"
      using disjoint_invD(2) [OF assms] by simp
    then show ?thesis by (rule distinct_map_filter)
  qed
  have so: "sorted (map (\<lambda>e. start (snd e)) ?ses)"
    by (rule sorted_filter) (rule sorted_sort_key)
  have "sorted_wrt (\<lambda>x y. start (snd x) + numel h (snd x) \<le> start (snd y)) ?ses"
    unfolding sorted_wrt_iff_nth_less
  proof (intro allI impI)
    fix a b assume ab: "a < b" "b < length ?ses"
    obtain kx x where x: "?ses ! a = (kx, x)" by (cases "?ses ! a")
    obtain ky y where y: "?ses ! b = (ky, y)" by (cases "?ses ! b")
    have "?ses ! a \<in> set ?ses" using ab by (intro nth_mem) simp
    moreover have "?ses ! b \<in> set ?ses" using ab by (intro nth_mem) simp
    ultimately have xin: "(kx, x) \<in> set ?es" "resident h x" and yin: "(ky, y) \<in> set ?es" "resident h y"
      using x y by auto
    have "map (\<lambda>e. start (snd e)) ?ses ! a \<le> map (\<lambda>e. start (snd e)) ?ses ! b"
      using so ab by (intro sorted_nth_mono) simp_all
    then have le: "start x \<le> start y" using ab x y by simp
    have "(map fst ?ses ! a = map fst ?ses ! b) = (a = b)"
      using dk ab by (intro nth_eq_iff_index_eq) simp_all
    then have kne: "kx \<noteq> ky" using ab x y by simp
    have no: "\<not> ranges_overlap h x y"
      by (rule disjoint_invD(4) [OF assms xin(1) yin(1) kne xin(2) yin(2)])
    have "1 \<le> numel h x" "1 \<le> numel h y"
      using disjoint_invD(3) [OF assms xin] disjoint_invD(3) [OF assms yin] by simp_all
    then have "start x + numel h x \<le> start y"
      using le no by (simp add: ranges_overlap_def)
    then show "start (snd (?ses ! a)) + numel h (snd (?ses ! a)) \<le> start (snd (?ses ! b))"
      by (simp add: x y)
  qed
  then show ?thesis by (simp add: occ sorted_wrt_map)
qed


lemma set_dict_set:
  "set (dict_set k v d) = {e \<in> set d. fst e \<noteq> k} \<union> {(k, v)}"
proof (cases "k \<in> fst ` set d")
  case True
  then show ?thesis by (force simp: dict_set_def split: if_splits)
next
  case False
  then show ?thesis by (force simp: dict_set_def)
qed

lemma keys_dict_set:
  "distinct (map fst d) \<Longrightarrow> distinct (map fst (dict_set k v d))"
proof (cases "k \<in> fst ` set d")
  case True
  have "map fst (map (\<lambda>(k', v'). if k' = k then (k', v) else (k', v')) d) = map fst d"
    by (induction d) auto
  then show "distinct (map fst d) \<Longrightarrow> ?thesis" using True by (simp only: dict_set_def if_True)
next
  case False
  then show "distinct (map fst d) \<Longrightarrow> ?thesis" by (simp add: dict_set_def)
qed

lemma ranges_overlap_sym: "ranges_overlap h i j = ranges_overlap h j i"
  by (auto simp: ranges_overlap_def)

lemma disjoint_inv_in_range: "disjoint_inv h c \<Longrightarrow> in_range h c"
proof -
  assume a: "disjoint_inv h c"
  have "\<forall>x\<in>set (occupied h c). case x of (s, n) \<Rightarrow> 0 \<le> s \<and> s + n \<le> capacity c"
  proof
    fix x assume "x \<in> set (occupied h c)"
    then obtain i where i: "i \<in> set (hosted c)" "resident h i" "x = (start i, numel h i)"
      by (auto simp: occupied_scan set_generate_in_sorted_order hosted_def)
    then obtain k where "(k, i) \<in> set (tensor_info_list c)" by (auto simp: hosted_def)
    from disjoint_invD(3) [OF a this i(2)] show "case x of (s, n) \<Rightarrow> 0 \<le> s \<and> s + n \<le> capacity c"
      by (simp add: i(3))
  qed
  then show ?thesis using disjoint_invD(1) [OF a] by (simp add: in_range_def list_all_iff)
qed

lemma try_allocate_keeps_disjoint:
  assumes inv: "disjoint_inv (params w) c"
      and pos: "1 \<le> shape_numel (ps_shape (params w p))"
  shows "\<exists>r c'. try_allocate w c p a now = (Return r, c', w) \<and> disjoint_inv (params w) c'"
proof -
  let ?h = "params w"
  let ?n = "shape_numel (ps_shape (?h p))"
  let ?occ = "occupied ?h c"
  let ?es = "tensor_info_list c"
  note ir = disjoint_inv_in_range [OF inv]
  note ch = try_allocate_char [OF ir, of p a now]
  show ?thesis
  proof (cases "first_fit ?n (gaps_from 0 ?occ (capacity c))")
    case None
    then have "try_allocate w c p a now = (Return None, c, w)" using ch by simp
    then show ?thesis using inv by blast
  next
    case (Some off)
    let ?new = "\<lparr>start = off, param = p, access_type = a\<rparr>"
    let ?k = "tensor_id ?h ?new"
    let ?c' = "c\<lparr>payload := (payload c)\<lparr>elements := zero_range off ?n (elements (payload c))\<rparr>,
                 tensor_info_list := TensorInfoList_add ?h ?new ?es,
                 timestamp := now\<rparr>"
    have ta: "\<exists>dest. try_allocate w c p a now = (Return (Some dest), ?c', w)"
      using ch Some by auto
    have nn: "numel ?h ?new = ?n" by (simp add: numel_def)
    have occ_mem: "(start j, numel ?h j) \<in> set ?occ"
      if "(k', j) \<in> set ?es" "resident ?h j" for k' j
      using that by (force simp: occupied_scan set_generate_in_sorted_order)
    have occ_ok: "\<forall>x\<in>set ?occ. 0 \<le> snd x \<and> 0 \<le> fst x"
    proof
      fix x assume "x \<in> set ?occ"
      then obtain i where i: "i \<in> snd ` set ?es" "resident ?h i" "x = (start i, numel ?h i)"
        by (auto simp: occupied_scan set_generate_in_sorted_order)
      then obtain k where "(k, i) \<in> set ?es" by auto
      from disjoint_invD(3) [OF inv this i(2)] show "0 \<le> snd x \<and> 0 \<le> fst x"
        by (simp add: i(3))
    qed
    from gap_disjoint [OF occupied_chain [OF inv] occ_ok Some]
    have gd: "\<forall>x\<in>set ?occ. fst x + snd x \<le> off \<or> off + ?n \<le> fst x" by simp
    have rs: "list_all (\<lambda>(s, m). 0 \<le> s \<and> s + m \<le> capacity c \<and> 0 \<le> m) ?occ"
      using ir occ_ok by (auto simp: in_range_def list_all_iff)
    have cap0: "0 \<le> capacity c" using disjoint_invD(1) [OF inv] by linarith
    have n0: "0 \<le> ?n" using pos by simp
    from first_fit_bounds [OF rs _ cap0 n0 Some]
    have b: "0 \<le> off" "off + ?n \<le> capacity c" by auto
    have zr: "off + ?n \<le> int (length (elements (payload c)))"
      using b disjoint_invD(1) [OF inv] by simp
    have sep: "\<not> ranges_overlap ?h ?new j \<and> \<not> ranges_overlap ?h j ?new"
      if "(k', j) \<in> set ?es" "resident ?h j" for k' j
    proof -
      from gd occ_mem [OF that]
      have "start j + numel ?h j \<le> off \<or> off + ?n \<le> start j" by fastforce
      then show ?thesis by (auto simp: ranges_overlap_def nn)
    qed
    have es': "tensor_info_list ?c' = dict_set ?k ?new ?es"
      by (simp add: TensorInfoList_add_def)
    have mem': "(k', j) \<in> set ?es \<and> k' \<noteq> ?k \<or> (k' = ?k \<and> j = ?new)"
      if "(k', j) \<in> set (tensor_info_list ?c')" for k' j
      using that unfolding es' set_dict_set by auto
    have A: "int (length (elements (payload ?c'))) = capacity ?c'"
      using zero_range_read(2) [OF b(1) n0 zr] disjoint_invD(1) [OF inv] by simp
    have B: "distinct (map fst (tensor_info_list ?c'))"
      unfolding es' by (rule keys_dict_set [OF disjoint_invD(2) [OF inv]])
    have rng: "0 \<le> start j \<and> start j + numel ?h j \<le> capacity ?c' \<and> 1 \<le> numel ?h j"
      if m: "(k', j) \<in> set (tensor_info_list ?c')" and rj: "resident ?h j" for k' j
    proof (cases "k' = ?k")
      case True
      then have "j = ?new" using mem' [OF m] by auto
      then show ?thesis using b pos nn by simp
    next
      case False
      then have "(k', j) \<in> set ?es" using mem' [OF m] by auto
      from disjoint_invD(3) [OF inv this rj] show ?thesis by simp
    qed
    have pair: "\<not> ranges_overlap ?h i j"
      if m1: "(k1, i) \<in> set (tensor_info_list ?c')" and m2: "(k2, j) \<in> set (tensor_info_list ?c')"
        and ne: "k1 \<noteq> k2" and ri: "resident ?h i" and rj: "resident ?h j" for k1 i k2 j
    proof (cases "k1 = ?k")
      case True
      then have i: "i = ?new" using mem' [OF m1] by auto
      have "(k2, j) \<in> set ?es" using mem' [OF m2] ne True by auto
      from sep [OF this rj] show ?thesis by (simp add: i)
    next
      case False
      then have i: "(k1, i) \<in> set ?es" using mem' [OF m1] by auto
      show ?thesis
      proof (cases "k2 = ?k")
        case True
        then have "j = ?new" using mem' [OF m2] by auto
        then show ?thesis using sep [OF i ri] by simp
      next
        case False
        then have "(k2, j) \<in> set ?es" using mem' [OF m2] by auto
        from disjoint_invD(4) [OF inv i this ne ri rj] show ?thesis .
      qed
    qed
    have C: "\<forall>(k, i)\<in>set (tensor_info_list ?c').
            resident ?h i \<longrightarrow> 0 \<le> start i \<and> start i + numel ?h i \<le> capacity ?c' \<and> 1 \<le> numel ?h i"
      using rng by blast
    have D: "\<forall>(k, i)\<in>set (tensor_info_list ?c'). \<forall>(k', j)\<in>set (tensor_info_list ?c').
            k \<noteq> k' \<and> resident ?h i \<and> resident ?h j \<longrightarrow> \<not> ranges_overlap ?h i j"
      using pair by blast
    have "disjoint_inv ?h ?c'"
      unfolding disjoint_inv_def using A B C D by (intro conjI)
    then show ?thesis using ta by blast
  qed
qed


lemma allocate_all_disjoint:
  assumes "disjoint_inv (params w) c"
      and "\<forall>(p, a)\<in>set ps. 1 \<le> shape_numel (ps_shape (params w p))"
  shows "disjoint_inv (params w) (allocate_all w c ps)"
  using assms
proof (induction ps arbitrary: c)
  case Nil
  then show ?case by (simp add: allocate_all_def)
next
  case (Cons x ps)
  obtain p a where x: "x = (p, a)" by (cases x)
  have pos: "1 \<le> shape_numel (ps_shape (params w p))" using Cons.prems(2) x by simp
  from try_allocate_keeps_disjoint [OF Cons.prems(1) pos, of a 0]
  obtain r c' where c': "try_allocate w c p a 0 = (Return r, c', w)" "disjoint_inv (params w) c'"
    by blast
  have "allocate_all w c (x # ps) = allocate_all w c' ps"
    by (simp add: allocate_all_def x c'(1))
  moreover have "disjoint_inv (params w) (allocate_all w c' ps)"
    using Cons.IH [OF c'(2)] Cons.prems(2) by simp
  ultimately show ?case by simp
qed

lemma Chunk_new_allocates:
  assumes "Chunk_new w cap esize cid is_init scheduled device_count now = (Return c, w')"
  shows "device c = scheduled \<and> tensor_info_list c = []
       \<and> elements (payload c) = replicate (nat cap) 0
       \<and> tensor_device (payload c) = scheduled
       \<and> capacity c = cap
       \<and> ps_used w' scheduled = ps_used w scheduled + cap * esize"
  using assms
  by (auto simp: Chunk_new_def zeros_def ps_manager_add_def
           split: if_splits devtype.splits option.splits)

lemma Chunk_new_disjoint:
  assumes "Chunk_new w cap esize cid is_init scheduled device_count now = (Return c, w')"
      and "0 \<le> cap"
  shows "disjoint_inv h c"
  using Chunk_new_allocates [OF assms(1)] assms(2) by (simp add: disjoint_inv_def)

lemma positive_items_never_overlap:
  assumes "Chunk_new w0 cap esize cid is_init scheduled device_count now = (Return c, w1)"
      and "0 \<le> cap"
      and "\<forall>(p, a)\<in>set ps. 1 \<le> shape_numel (ps_shape (params w p))"
      and "(k, i) \<in> set (tensor_info_list (allocate_all w c ps))"
      and "(k', j) \<in> set (tensor_info_list (allocate_all w c ps))"
      and "k \<noteq> k'" "resident (params w) i" "resident (params w) j"
  shows "\<not> ranges_overlap (params w) i j"
proof -
  have "disjoint_inv (params w) (allocate_all w c ps)"
    by (rule allocate_all_disjoint [OF Chunk_new_disjoint [OF assms(1,2)] assms(3)])
  from disjoint_invD(4) [OF this assms(4,5,6,7,8)] show ?thesis .
qed

text \<open>
  The hypothesis of first fit, that the payload has \<open>capacity\<close> elements and the
  resident descriptors lie inside it, holds for a new chunk and is kept by every
  \<^verbatim>\<open>try_allocate\<close>, which therefore never raises.
\<close>

lemma set_occupied:
  "set (occupied h c) = (\<lambda>i. (start i, numel h i)) ` {i \<in> snd ` set (tensor_info_list c). resident h i}"
  by (auto simp: occupied_scan set_generate_in_sorted_order)

lemma Chunk_new_in_range:
  assumes "Chunk_new w cap esize cid is_init scheduled device_count now = (Return c, w')"
      and "0 \<le> cap"
  shows "in_range h c"
  using Chunk_new_allocates [OF assms(1)] assms(2)
  by (simp add: in_range_def occupied_scan generate_in_sorted_order_def)

lemma try_allocate_keeps_in_range:
  assumes ir: "in_range (params w) c"
      and ta: "try_allocate w c p a now = (r, c', w')"
  shows "in_range (params w) c' \<and> w' = w \<and> (\<exists>v. r = Return v)"
proof -
  let ?h = "params w"
  let ?n = "shape_numel (ps_shape (?h p))"
  note ch = try_allocate_char [OF ir, of p a now]
  show ?thesis
  proof (cases "first_fit ?n (gaps_from 0 (occupied ?h c) (capacity c))")
    case None
    then show ?thesis using ch ta ir by simp
  next
    case (Some off)
    let ?new = "\<lparr>start = off, param = p, access_type = a\<rparr>"
    let ?c' = "c\<lparr>payload := (payload c)\<lparr>elements := zero_range off ?n (elements (payload c))\<rparr>,
                 tensor_info_list := TensorInfoList_add ?h ?new (tensor_info_list c),
                 timestamp := now\<rparr>"
    have res: "c' = ?c'" "w' = w" "\<exists>v. r = Return v" using ch Some ta by auto
    have len: "int (length (elements (payload c))) = capacity c"
      and occ: "\<forall>x\<in>set (occupied ?h c). case x of (s, m) \<Rightarrow> 0 \<le> s \<and> s + m \<le> capacity c"
      using ir by (simp_all add: in_range_def list_all_iff)
    have rs: "list_all (\<lambda>(s, m). 0 \<le> s \<and> s + m \<le> capacity c \<and> 0 \<le> m) (occupied ?h c)"
      using occ by (auto simp: list_all_iff set_occupied numel_nonneg)
    have n0: "0 \<le> ?n" by (simp add: shape_numel_def)
    have cap0: "0 \<le> capacity c" using len by linarith
    from first_fit_bounds [OF rs _ cap0 n0 Some]
    have b: "0 \<le> off" "off + ?n \<le> capacity c" by auto
    have zr: "off + ?n \<le> int (length (elements (payload c)))" using b len by simp
    have A: "int (length (elements (payload ?c'))) = capacity ?c'"
      using zero_range_read(2) [OF b(1) n0 zr] len by simp
    have B: "\<forall>x\<in>set (occupied ?h ?c'). case x of (s, m) \<Rightarrow> 0 \<le> s \<and> s + m \<le> capacity ?c'"
    proof
      fix x assume "x \<in> set (occupied ?h ?c')"
      then obtain k i where i: "(k, i) \<in> set (dict_set (tensor_id ?h ?new) ?new (tensor_info_list c))"
          "resident ?h i" "x = (start i, numel ?h i)"
        by (auto simp: set_occupied TensorInfoList_add_def)
      from i(1) have "i = ?new \<or> (k, i) \<in> set (tensor_info_list c)"
        unfolding set_dict_set by auto
      then show "case x of (s, m) \<Rightarrow> 0 \<le> s \<and> s + m \<le> capacity ?c'"
      proof
        assume "i = ?new"
        then show ?thesis using b by (simp add: i(3) numel_def)
      next
        assume "(k, i) \<in> set (tensor_info_list c)"
        then have "x \<in> set (occupied ?h c)" using i(2,3) by (force simp: set_occupied)
        then show ?thesis using occ by auto
      qed
    qed
    have "in_range ?h ?c'" unfolding in_range_def list_all_iff using A B by (intro conjI)
    then show ?thesis using res by simp
  qed
qed

subsection \<open>Overlap after allocating a parameter of zero elements\<close>

text \<open>
  C8 fails on the code. Into an empty chunk of ten elements, \<^verbatim>\<open>try_allocate\<close> places a
  parameter of four elements at 0, then a parameter of zero elements at 0 (the gap in
  front of the first descriptor has size 0, which holds the request), and then a
  parameter of five elements at 0 again: the scan sets \<^verbatim>\<open>prev_end\<close> to the end of the
  empty descriptor, which is 0, and so forgets the four elements in use. All three are
  in use (status HOLD) and were installed through \<^verbatim>\<open>try_allocate\<close>, and the ranges of
  the first and the third overlap.
\<close>

theorem try_allocate_zero_numel_overlap:
  "tensor_info_list (allocate_all zero_world fresh_chunk [(0, DATA), (1, DATA), (2, DATA)])
     = [(1, \<lparr>start = 0, param = 0, access_type = DATA\<rparr>),
        (2, \<lparr>start = 0, param = 1, access_type = DATA\<rparr>),
        (3, \<lparr>start = 0, param = 2, access_type = DATA\<rparr>)]
   \<and> list_all (resident (params zero_world)) (hosted (allocate_all zero_world fresh_chunk [(0, DATA), (1, DATA), (2, DATA)]))
   \<and> ranges_overlap (params zero_world)
        \<lparr>start = 0, param = 0, access_type = DATA\<rparr> \<lparr>start = 0, param = 2, access_type = DATA\<rparr>"
  by code_simp

end
